theory Spec2Isabelle
  imports
    Main
    "HOL-Library.Char_ord"
    "HOL-Library.List_Lexorder"
    "HOL-Library.Option_ord"
    "HOL-Library.Multiset"
begin

section \<open>Photo Album Organizer: the persistence and ingestion engine\<close>

text \<open>
  The engine keeps album and photo metadata in an SQLite database (\<^verbatim>\<open>db/database.js\<close>,
  \<^verbatim>\<open>db/schema.sql\<close>) and the binary payloads in an IndexedDB object store
  (\<^verbatim>\<open>js/storage.js\<close>). The model passes both stores explicitly. A JavaScript
  exception or a rejected promise is the left summand of a result; since nothing is rolled
  back, every operation returns the store it leaves behind together with its result.

  Field names carry a prefix for their record (\<open>a_\<close> album row, \<open>p_\<close> photo row,
  \<open>b_\<close> IndexedDB record, \<open>f_\<close> File object) because several of them share
  \<^verbatim>\<open>id\<close>, \<^verbatim>\<open>name\<close> and \<^verbatim>\<open>date\<close>.
\<close>

subsection \<open>Errors and strings\<close>

text \<open>
  \<open>Error m\<close> is \<^verbatim>\<open>new Error(m)\<close>; \<open>DOMException n\<close> is the error object
  of a failed IndexedDB request or file read, named \<open>n\<close>. The engine has no error classes:
  callers tell the kinds apart by the message text.
\<close>

datatype error = Error string | DOMException string

fun message :: "error \<Rightarrow> string" where
  "message (Error m) = m"
| "message (DOMException n) = n"

text \<open>\<^verbatim>\<open>String.prototype.includes\<close>.\<close>

fun str_includes :: "string \<Rightarrow> string \<Rightarrow> bool" where
  "str_includes [] sub = (sub = [])"
| "str_includes (c # cs) sub = (take (length sub) (c # cs) = sub \<or> str_includes cs sub)"

text \<open>
  \<^verbatim>\<open>String.prototype.trim\<close> on the characters a \<open>string\<close> can hold: tab, line feed,
  vertical tab, form feed, carriage return, space and no-break space.
\<close>

definition is_ws :: "char \<Rightarrow> bool" where
  "is_ws c = (of_char c \<in> {9, 10, 11, 12, 13, 32, 160 :: nat})"

definition trim :: "string \<Rightarrow> string" where
  "trim s = rev (dropWhile is_ws (rev (dropWhile is_ws s)))"

definition is_digit :: "char \<Rightarrow> bool" where
  "is_digit c = (c \<in> set ''0123456789'')"

text \<open>The regular expression \<^verbatim>\<open>/^\d{4}-\d{2}-\d{2}$/\<close>.\<close>

definition date_format_ok :: "string \<Rightarrow> bool" where
  "date_format_ok d =
     (length d = 10 \<and> list_all is_digit (take 4 d) \<and> d ! 4 = CHR ''-'' \<and>
      list_all is_digit (take 2 (drop 5 d)) \<and> d ! 7 = CHR ''-'' \<and>
      list_all is_digit (drop 8 d))"

subsection \<open>SQL helpers\<close>

text \<open>
  \<^verbatim>\<open>ORDER BY\<close>: the rows sorted by a comparison \<open>le\<close>. SQL leaves the order of rows
  with equal keys open; the model keeps them in table order (a stable insertion sort).
  TEXT columns compare bytewise (lexicographically), and NULL sorts before every value,
  which is the order of \<open>string\<close> and of \<open>int option\<close> used below.
\<close>

fun insort_by :: "('a \<Rightarrow> 'a \<Rightarrow> bool) \<Rightarrow> 'a \<Rightarrow> 'a list \<Rightarrow> 'a list" where
  "insort_by le x [] = [x]"
| "insort_by le x (y # ys) = (if le x y then x # y # ys else y # insort_by le x ys)"

definition order_by :: "('a \<Rightarrow> 'a \<Rightarrow> bool) \<Rightarrow> 'a list \<Rightarrow> 'a list" where
  "order_by le rows = foldr (insort_by le) rows []"

text \<open>\<^verbatim>\<open>MAX(col)\<close> over a nullable integer column: NULL values are skipped.\<close>

fun sql_max :: "int option list \<Rightarrow> int option" where
  "sql_max [] = None"
| "sql_max (None # vs) = sql_max vs"
| "sql_max (Some v # vs) = (case sql_max vs of None \<Rightarrow> Some v | Some m \<Rightarrow> Some (max v m))"

text \<open>
  \<^verbatim>\<open>INTEGER PRIMARY KEY AUTOINCREMENT\<close>: one more than the largest rowid the table has
  ever held (\<open>seq\<close> is the table's entry in \<^verbatim>\<open>sqlite_sequence\<close>).
\<close>

definition next_rowid :: "nat \<Rightarrow> nat list \<Rightarrow> nat" where
  "next_rowid seq ids = Suc (fold max ids seq)"

subsection \<open>The metadata store\<close>

record album =
  a_id :: nat
  a_name :: string
  a_date :: string
  a_custom_order :: "int option"
  a_created_at :: string
  a_updated_at :: string

record photo =
  p_id :: nat
  p_album_id :: nat
  p_filename :: string
  p_file_hash :: string
  p_upload_timestamp :: string
  p_file_size :: nat
  p_format :: string
  p_width :: nat
  p_height :: nat

text \<open>
  The three tables of \<^verbatim>\<open>schema.sql\<close>, rows in rowid order, the two AUTOINCREMENT
  counters and the connection's \<^verbatim>\<open>last_insert_rowid()\<close>. A row of
  \<^verbatim>\<open>album_order\<close> is (album id, position). The schema declares foreign keys but never
  switches \<^verbatim>\<open>PRAGMA foreign_keys\<close> on, so SQLite does not enforce them.

  \<^verbatim>\<open>execute\<close> of \<^verbatim>\<open>database.js\<close> runs its command and then \<^verbatim>\<open>saveDatabase\<close>, whose
  \<^verbatim>\<open>db.export()\<close> closes the connection and opens it again. On the new connection
  \<^verbatim>\<open>last_insert_rowid()\<close> is 0, so a query that follows a command reads 0, whatever the
  command inserted. (\<^verbatim>\<open>execute\<close> itself reads the rowid before the export, into a result
  that no caller uses.) The commands that insert nothing leave the field as it is.
\<close>

record database =
  albums :: "album list"
  photos :: "photo list"
  album_order :: "(nat \<times> int) list"
  albums_seq :: nat
  photos_seq :: nat
  last_insert_rowid :: nat

subsection \<open>The blob store\<close>

record jsfile =
  f_name :: string
  f_type :: string
  f_size :: nat
  f_bytes :: "nat list"
  f_readable :: bool
  f_image :: "(nat \<times> nat) option"
  f_thumbable :: bool

text \<open>
  A File object: \<open>f_bytes\<close> is the content, \<open>f_readable\<close> says whether
  \<^verbatim>\<open>file.arrayBuffer()\<close> resolves, \<open>f_image\<close> is the width and height an
  \<^verbatim>\<open>Image\<close> element reports after loading the file (\<open>None\<close> when it fires
  \<^verbatim>\<open>onerror\<close>), and \<open>f_thumbable\<close> says whether the FileReader and canvas of
  \<^verbatim>\<open>generateThumbnail\<close> succeed.
\<close>

text \<open>
  The thumbnail of \<^verbatim>\<open>utils/thumbnail.js\<close>: a JPEG of \<open>t_size\<close> by \<open>t_size\<close> pixels
  drawn from the square of side \<open>t_crop\<close> of the source image; \<open>t_sx2\<close> and \<open>t_sy2\<close> are
  twice the offsets of its corner (the source halves a difference of integers).
\<close>

record thumbnail =
  t_size :: nat
  t_crop :: nat
  t_sx2 :: nat
  t_sy2 :: nat
  t_source :: "nat list"

record blob_rec =
  b_id :: nat
  b_albumId :: nat
  b_photo :: jsfile
  b_thumbnail :: thumbnail
  b_fileHash :: string
  b_timestamp :: nat

text \<open>
  The object store \<^verbatim>\<open>photos\<close> with key path \<^verbatim>\<open>id\<close>, the index
  \<^verbatim>\<open>albumId\<close> (not unique) and the index \<^verbatim>\<open>fileHash\<close> (\<^verbatim>\<open>unique: true\<close>).
  \<open>faults\<close> is the environment: the outcome of each coming request, \<open>True\<close> for a
  request whose \<^verbatim>\<open>onerror\<close> fires; when the list is used up every request succeeds.
\<close>

record blobstore =
  records :: "blob_rec list"
  faults :: "bool list"

record system =
  db :: "database option"
  idb :: blobstore

subsection \<open>Album model (\<^verbatim>\<open>js/models/Album.js\<close>)\<close>

text \<open>\<^verbatim>\<open>getDatabase\<close> of \<^verbatim>\<open>database.js\<close>, which every query and command calls first.\<close>

definition getDatabase :: "system \<Rightarrow> error + database" where
  "getDatabase s =
     (case db s of
        None \<Rightarrow> Inl (Error ''Database not initialized. Call initDatabase() first.'')
      | Some d \<Rightarrow> Inr d)"


text \<open>\<^verbatim>\<open>SELECT * FROM albums ORDER BY custom_order ASC\<close>.\<close>

definition custom_order_le :: "album \<Rightarrow> album \<Rightarrow> bool" where
  "custom_order_le a b = (a_custom_order a \<le> a_custom_order b)"

definition Album_findAll :: "system \<Rightarrow> error + album list" where
  "Album_findAll s =
     (case getDatabase s of
        Inl e \<Rightarrow> Inl e
      | Inr d \<Rightarrow> Inr (order_by custom_order_le (albums d)))"

text \<open>
  \<^verbatim>\<open>SELECT * FROM albums ORDER BY date <o>, created_at <o>\<close> where \<^verbatim>\<open><o>\<close> is
  \<^verbatim>\<open>ASC\<close> when the argument is the string \<^verbatim>\<open>'ASC'\<close> and \<^verbatim>\<open>DESC\<close> otherwise.
\<close>

definition date_created_asc :: "album \<Rightarrow> album \<Rightarrow> bool" where
  "date_created_asc a b =
     (a_date a < a_date b \<or> (a_date a = a_date b \<and> a_created_at a \<le> a_created_at b))"

definition date_created_desc :: "album \<Rightarrow> album \<Rightarrow> bool" where
  "date_created_desc a b =
     (a_date b < a_date a \<or> (a_date a = a_date b \<and> a_created_at b \<le> a_created_at a))"

definition Album_findAllByDate :: "string \<Rightarrow> system \<Rightarrow> error + album list" where
  "Album_findAllByDate ord s =
     (case getDatabase s of
        Inl e \<Rightarrow> Inl e
      | Inr d \<Rightarrow>
          Inr (order_by (if ord = ''ASC'' then date_created_asc else date_created_desc)
                 (albums d)))"

text \<open>
  \<^verbatim>\<open>Album.create\<close>: the new position is one past the largest position in the table
  (0 when there is none), the row is inserted, and the id of the Album object it returns
  comes from a separate \<^verbatim>\<open>SELECT last_insert_rowid()\<close> after \<^verbatim>\<open>execute\<close> has returned:
  the stored row has its rowid, the returned object has what that query reads. \<open>now\<close> is
  \<^verbatim>\<open>new Date().toISOString()\<close>.
\<close>

definition Album_create :: "string \<Rightarrow> string \<Rightarrow> string \<Rightarrow> system \<Rightarrow> (error + album) \<times> system" where
  "Album_create now nm dt s =
     (case getDatabase s of
        Inl e \<Rightarrow> (Inl e, s)
      | Inr d \<Rightarrow>
          let custom_order =
                (case sql_max (map a_custom_order (albums d)) of None \<Rightarrow> - 1 | Some m \<Rightarrow> m) + 1;
              i = next_rowid (albums_seq d) (map a_id (albums d));
              row = \<lparr>a_id = i, a_name = nm, a_date = dt, a_custom_order = Some custom_order,
                     a_created_at = now, a_updated_at = now\<rparr>;
              d' = d\<lparr>albums := albums d @ [row], albums_seq := i, last_insert_rowid := 0\<rparr>;
              id' = last_insert_rowid d'
          in (Inr (row\<lparr>a_id := id'\<rparr>), s\<lparr>db := Some d'\<rparr>))"

text \<open>
  \<^verbatim>\<open>album.updateOrder(newOrder)\<close>:
  \<^verbatim>\<open>UPDATE albums SET custom_order = ?, updated_at = ? WHERE id = ?\<close>.
\<close>

definition set_order :: "string \<Rightarrow> nat \<Rightarrow> int \<Rightarrow> album \<Rightarrow> album" where
  "set_order now i newOrder a =
     (if a_id a = i then a\<lparr>a_custom_order := Some newOrder, a_updated_at := now\<rparr> else a)"

definition updateOrder :: "string \<Rightarrow> nat \<Rightarrow> int \<Rightarrow> database \<Rightarrow> database" where
  "updateOrder now i newOrder d = d\<lparr>albums := map (set_order now i newOrder) (albums d)\<rparr>"


subsection \<open>Album service (\<^verbatim>\<open>js/services/albumService.js\<close>)\<close>

text \<open>
  \<^verbatim>\<open>create(name, date)\<close>. \<open>parses\<close> stands for the JavaScript engine's date parser:
  \<open>parses d\<close> holds when \<^verbatim>\<open>new Date(d).getTime()\<close> is not NaN.
\<close>

definition create :: "(string \<Rightarrow> bool) \<Rightarrow> string \<Rightarrow> string \<Rightarrow> string \<Rightarrow> system \<Rightarrow> (error + album) \<times> system" where
  "create parses now nm dt s =
     (if nm = [] \<or> length (trim nm) = 0 then
        (Inl (Error ''Album name is required and must be a non-empty string''), s)
      else if dt = [] \<or> \<not> date_format_ok dt then
        (Inl (Error ''Album date must be in YYYY-MM-DD format''), s)
      else if \<not> parses dt then (Inl (Error ''Invalid date provided''), s)
      else
        (case Album_findAll s of
           Inl e \<Rightarrow> (Inl e, s)
         | Inr existingAlbums \<Rightarrow>
             if length existingAlbums \<ge> 100 then
               (Inl (Error ''Maximum album limit (100) reached''), s)
             else Album_create now (trim nm) dt s))"

text \<open>
  \<^verbatim>\<open>reorderAlbums(albumIds)\<close>. \<^verbatim>\<open>albumIds.map\<close> calls \<^verbatim>\<open>Album.findById\<close> for
  every id at once, against the table as it is; each continuation then runs
  \<^verbatim>\<open>updateOrder(index)\<close> when an album was found and does nothing otherwise, in the order
  of the list. With no database every \<^verbatim>\<open>findById\<close> rejects, and so does
  \<^verbatim>\<open>Promise.all\<close>, unless the list is empty.
\<close>

fun reorder_from :: "string \<Rightarrow> album list \<Rightarrow> nat \<Rightarrow> nat list \<Rightarrow> database \<Rightarrow> database" where
  "reorder_from now found index [] d = d"
| "reorder_from now found index (albumId # ids) d =
     reorder_from now found (Suc index) ids
       (case find (\<lambda>a. a_id a = albumId) found of
          None \<Rightarrow> d
        | Some a \<Rightarrow> updateOrder now (a_id a) (int index) d)"

definition reorderAlbums :: "string \<Rightarrow> nat list \<Rightarrow> system \<Rightarrow> (error + unit) \<times> system" where
  "reorderAlbums now albumIds s =
     (if albumIds = [] then (Inr (), s)
      else
        (case getDatabase s of
           Inl e \<Rightarrow> (Inl e, s)
         | Inr d \<Rightarrow> (Inr (), s\<lparr>db := Some (reorder_from now (albums d) 0 albumIds d)\<rparr>)))"

text \<open>
  \<^verbatim>\<open>getAllWithPhotoCounts(sortBy)\<close>: the albums by date (newest first) when
  \<^verbatim>\<open>sortBy\<close> is \<^verbatim>\<open>'date'\<close>, by position otherwise, each with its number of photos.
\<close>

definition getPhotoCount :: "database \<Rightarrow> album \<Rightarrow> nat" where
  "getPhotoCount d a = length (filter (\<lambda>p. p_album_id p = a_id a) (photos d))"

definition getAllWithPhotoCounts :: "string \<Rightarrow> system \<Rightarrow> error + (album \<times> nat) list" where
  "getAllWithPhotoCounts sortBy s =
     (case (if sortBy = ''date'' then Album_findAllByDate ''DESC'' s else Album_findAll s) of
        Inl e \<Rightarrow> Inl e
      | Inr as \<Rightarrow>
          (case getDatabase s of
             Inl e \<Rightarrow> Inl e
           | Inr d \<Rightarrow> Inr (map (\<lambda>a. (a, getPhotoCount d a)) as)))"


subsection \<open>Form validation (\<^verbatim>\<open>js/utils/formValidator.js\<close>)\<close>

text \<open>
  \<open>getTime d\<close> stands for \<^verbatim>\<open>new Date(d).getTime()\<close>, \<open>None\<close> for NaN, and \<open>today\<close> for
  the time value of local midnight (\<^verbatim>\<open>new Date()\<close> after \<^verbatim>\<open>setHours(0, 0, 0, 0)\<close>).
  A comparison with NaN is false.
\<close>

definition isValidDate :: "(string \<Rightarrow> int option) \<Rightarrow> string \<Rightarrow> bool" where
  "isValidDate getTime dateString = (date_format_ok dateString \<and> getTime dateString \<noteq> None)"

definition isFutureDate :: "(string \<Rightarrow> int option) \<Rightarrow> int \<Rightarrow> string \<Rightarrow> bool" where
  "isFutureDate getTime today dateString =
     (case getTime dateString of None \<Rightarrow> False | Some t \<Rightarrow> today < t)"

record form_errors =
  e_name :: "string option"
  e_date :: "string option"

definition validateAlbumForm :: "(string \<Rightarrow> int option) \<Rightarrow> int \<Rightarrow> string \<Rightarrow> string \<Rightarrow> bool \<times> form_errors" where
  "validateAlbumForm getTime today nm dt =
     (let errors =
        \<lparr>e_name =
           (if nm = [] \<or> trim nm = [] then Some ''Album name is required''
            else if length (trim nm) < 1 then Some ''Album name must not be empty''
            else if length (trim nm) > 100 then Some ''Album name must be 100 characters or less''
            else None),
         e_date =
           (if dt = [] \<or> trim dt = [] then Some ''Album date is required''
            else if \<not> isValidDate getTime dt then Some ''Invalid date format (use YYYY-MM-DD)''
            else if isFutureDate getTime today dt then Some ''Album date cannot be in the future''
            else None)\<rparr>
      in (e_name errors = None \<and> e_date errors = None, errors))"

text \<open>
  A date parser to run the examples with: the time value ECMAScript assigns to a date-only
  ISO string, midnight UTC of a day that exists in the calendar, in milliseconds since
  1970-01-01.
\<close>

definition digits_value :: "string \<Rightarrow> int" where
  "digits_value ds = foldl (\<lambda>n c. 10 * n + (int (of_char c) - 48)) 0 ds"

definition days_in_month :: "int \<Rightarrow> int \<Rightarrow> int" where
  "days_in_month y m =
     (if m = 2 then (if y mod 4 = 0 \<and> (y mod 100 \<noteq> 0 \<or> y mod 400 = 0) then 29 else 28)
      else if m \<in> {4, 6, 9, 11} then 30 else 31)"

definition days_from_civil :: "int \<Rightarrow> int \<Rightarrow> int \<Rightarrow> int" where
  "days_from_civil y m d =
     (let y' = (if m \<le> 2 then y - 1 else y);
          era = y' div 400;
          yoe = y' - era * 400;
          doy = (153 * (if m > 2 then m - 3 else m + 9) + 2) div 5 + d - 1;
          doe = yoe * 365 + yoe div 4 - yoe div 100 + doy
      in era * 146097 + doe - 719468)"

definition iso_date_time :: "string \<Rightarrow> int option" where
  "iso_date_time s =
     (if \<not> date_format_ok s then None
      else
        let y = digits_value (take 4 s); m = digits_value (take 2 (drop 5 s));
            d = digits_value (drop 8 s)
        in if 1 \<le> m \<and> m \<le> 12 \<and> 1 \<le> d \<and> d \<le> days_in_month y m
           then Some (days_from_civil y m d * 86400000) else None)"

definition iso_date_parses :: "string \<Rightarrow> bool" where
  "iso_date_parses s = (iso_date_time s \<noteq> None)"

subsection \<open>IndexedDB storage (\<^verbatim>\<open>js/storage.js\<close>)\<close>

text \<open>Every request first asks the environment whether it fails.\<close>

definition request :: "blobstore \<Rightarrow> bool \<times> blobstore" where
  "request st = (case faults st of [] \<Rightarrow> (False, st) | f # fs \<Rightarrow> (f, st\<lparr>faults := fs\<rparr>))"

text \<open>
  \<^verbatim>\<open>storePhoto\<close>: \<^verbatim>\<open>store.put\<close> replaces the record with the same key. The unique
  index on \<^verbatim>\<open>fileHash\<close> refuses a record whose hash another key already holds
  (ConstraintError), whatever album the other record belongs to.
\<close>

definition storePhoto :: "nat \<Rightarrow> nat \<Rightarrow> nat \<Rightarrow> jsfile \<Rightarrow> thumbnail \<Rightarrow> string \<Rightarrow> blobstore \<Rightarrow> (error + unit) \<times> blobstore" where
  "storePhoto ts photoId albumId photoBlob thumbnailBlob fileHash st =
     (case request st of
        (True, st') \<Rightarrow> (Inl (DOMException ''UnknownError''), st')
      | (False, st') \<Rightarrow>
          if \<exists>r \<in> set (records st'). b_fileHash r = fileHash \<and> b_id r \<noteq> photoId then
            (Inl (DOMException ''ConstraintError''), st')
          else
            (Inr (),
             st'\<lparr>records := filter (\<lambda>r. b_id r \<noteq> photoId) (records st') @
                [\<lparr>b_id = photoId, b_albumId = albumId, b_photo = photoBlob,
                  b_thumbnail = thumbnailBlob, b_fileHash = fileHash, b_timestamp = ts\<rparr>]\<rparr>))"

definition getPhoto :: "nat \<Rightarrow> blobstore \<Rightarrow> (error + blob_rec option) \<times> blobstore" where
  "getPhoto photoId st =
     (case request st of
        (True, st') \<Rightarrow> (Inl (DOMException ''UnknownError''), st')
      | (False, st') \<Rightarrow> (Inr (find (\<lambda>r. b_id r = photoId) (records st')), st'))"





text \<open>Decimal digits of a number, as a template literal prints an id.\<close>

fun nat_digits :: "nat \<Rightarrow> nat \<Rightarrow> string" where
  "nat_digits 0 n = []"
| "nat_digits (Suc fuel) n =
     (if n < 10 then [char_of (48 + n)]
      else nat_digits fuel (n div 10) @ [char_of (48 + n mod 10)])"

definition nat_to_string :: "nat \<Rightarrow> string" where
  "nat_to_string n = nat_digits (Suc n) n"



subsection \<open>Photo model (\<^verbatim>\<open>js/models/Photo.js\<close>)\<close>

text \<open>\<^verbatim>\<open>SELECT COUNT(*) as count FROM photos WHERE album_id = ?\<close>.\<close>

definition Photo_countByAlbum :: "nat \<Rightarrow> system \<Rightarrow> error + nat" where
  "Photo_countByAlbum albumId s =
     (case getDatabase s of
        Inl e \<Rightarrow> Inl e
      | Inr d \<Rightarrow> Inr (length (filter (\<lambda>p. p_album_id p = albumId) (photos d))))"

text \<open>\<^verbatim>\<open>SELECT * FROM photos WHERE album_id = ? AND file_hash = ? LIMIT 1\<close>.\<close>

definition Photo_findByAlbumAndHash :: "nat \<Rightarrow> string \<Rightarrow> system \<Rightarrow> error + photo option" where
  "Photo_findByAlbumAndHash albumId fileHash s =
     (case getDatabase s of
        Inl e \<Rightarrow> Inl e
      | Inr d \<Rightarrow> Inr (find (\<lambda>p. p_album_id p = albumId \<and> p_file_hash p = fileHash) (photos d)))"

text \<open>
  The stages of an ingestion, in the order the specification lists them. The functions
  below return, next to their result, the stages they entered.
\<close>

datatype stage =
  ValidateFormat | CheckCapacity | ComputeFingerprint | DuplicateLookup |
  ExtractDimensions | DeriveThumbnail | WriteMetadata | WriteBlobs

definition pipeline :: "stage list" where
  "pipeline =
     [ValidateFormat, CheckCapacity, ComputeFingerprint, DuplicateLookup,
      ExtractDimensions, DeriveThumbnail, WriteMetadata, WriteBlobs]"

record photo_data =
  d_album_id :: nat
  d_filename :: string
  d_file_hash :: string
  d_file_size :: nat
  d_format :: string
  d_width :: nat
  d_height :: nat

text \<open>
  \<^verbatim>\<open>Photo.create(photoData, photoBlob, thumbnailBlob)\<close>: INSERT the row (the unique index
  \<^verbatim>\<open>idx_photos_album_hash\<close> refuses a second row with the same album and hash), then
  \<^verbatim>\<open>SELECT last_insert_rowid()\<close>, then \<^verbatim>\<open>storePhoto\<close> under the id that query
  returned, which is also the id of the Photo object returned. The stored row keeps its
  rowid. When \<^verbatim>\<open>storePhoto\<close> rejects, the row stays.

  The function is suspended between the INSERT and the IndexedDB request; \<open>others\<close> is
  what the rest of the program does to the stores in the meantime (the identity when
  nothing else runs).
\<close>

definition Photo_create :: "string \<Rightarrow> nat \<Rightarrow> (system \<Rightarrow> system) \<Rightarrow> photo_data \<Rightarrow> jsfile \<Rightarrow> thumbnail \<Rightarrow> system \<Rightarrow> stage list \<times> (error + photo) \<times> system" where
  "Photo_create now ts others photoData photoBlob thumbnailBlob s =
     (case getDatabase s of
        Inl e \<Rightarrow> ([], Inl e, s)
      | Inr d \<Rightarrow>
          if \<exists>p \<in> set (photos d). p_album_id p = d_album_id photoData \<and>
                                   p_file_hash p = d_file_hash photoData then
            ([WriteMetadata],
             Inl (Error ''UNIQUE constraint failed: photos.album_id, photos.file_hash''), s)
          else
            let i = next_rowid (photos_seq d) (map p_id (photos d));
                row = \<lparr>p_id = i, p_album_id = d_album_id photoData,
                       p_filename = d_filename photoData, p_file_hash = d_file_hash photoData,
                       p_upload_timestamp = now, p_file_size = d_file_size photoData,
                       p_format = d_format photoData, p_width = d_width photoData,
                       p_height = d_height photoData\<rparr>;
                d' = d\<lparr>photos := photos d @ [row], photos_seq := i, last_insert_rowid := 0\<rparr>;
                id' = last_insert_rowid d';
                s' = others (s\<lparr>db := Some d'\<rparr>)
            in (case storePhoto ts id' (d_album_id photoData) photoBlob thumbnailBlob
                       (d_file_hash photoData) (idb s') of
                  (Inl e, st') \<Rightarrow> ([WriteMetadata, WriteBlobs], Inl e, s'\<lparr>idb := st'\<rparr>)
                | (Inr u, st') \<Rightarrow>
                    ([WriteMetadata, WriteBlobs], Inr (row\<lparr>p_id := id'\<rparr>), s'\<lparr>idb := st'\<rparr>)))"

subsection \<open>Hashing and thumbnails (\<^verbatim>\<open>js/utils/hash.js\<close>, \<^verbatim>\<open>js/utils/thumbnail.js\<close>)\<close>

text \<open>
  \<open>digest\<close> stands for SHA-256 of the browser's \<^verbatim>\<open>crypto.subtle\<close>, hex-encoded: a
  function of the bytes alone.
\<close>

definition calculateFileHash :: "(nat list \<Rightarrow> string) \<Rightarrow> jsfile \<Rightarrow> error + string" where
  "calculateFileHash digest file =
     (if f_readable file then Inr (digest (f_bytes file))
      else Inl (DOMException ''NotReadableError''))"

definition THUMBNAIL_SIZE :: nat where
  "THUMBNAIL_SIZE = 300"

definition generateThumbnail :: "jsfile \<Rightarrow> error + thumbnail" where
  "generateThumbnail file =
     (if \<not> f_thumbable file then Inl (Error ''Failed to read file'')
      else
        (case f_image file of
           None \<Rightarrow> Inl (Error ''Failed to load image'')
         | Some (width, height) \<Rightarrow>
             let size = min width height
             in Inr \<lparr>t_size = THUMBNAIL_SIZE, t_crop = size, t_sx2 = width - size,
                     t_sy2 = height - size, t_source = f_bytes file\<rparr>))"

subsection \<open>Photo service (\<^verbatim>\<open>js/services/photoService.js\<close>)\<close>

definition validFormats :: "string list" where
  "validFormats = [''image/jpeg'', ''image/png'', ''image/webp'', ''image/heic'']"

definition getImageDimensions :: "jsfile \<Rightarrow> error + nat \<times> nat" where
  "getImageDimensions file =
     (case f_image file of None \<Rightarrow> Inl (Error ''Failed to load image'') | Some wh \<Rightarrow> Inr wh)"

text \<open>\<^verbatim>\<open>file.type.split('/')[1]\<close>, for a type that contains a slash.\<close>

definition format_of :: "string \<Rightarrow> string" where
  "format_of t =
     takeWhile (\<lambda>c. c \<noteq> CHR ''/'') (drop 1 (dropWhile (\<lambda>c. c \<noteq> CHR ''/'') t))"

text \<open>
  \<^verbatim>\<open>add(albumId, file)\<close>. Every \<^verbatim>\<open>await\<close> that rejects ends the function, which is
  the \<open>Inl\<close> branch of the stage. The function touches the stores at four moments: the
  COUNT query (run at the call), the duplicate lookup (run when the hash is there), the
  INSERT (run when the thumbnail is there) and the IndexedDB request. In between it is
  suspended, waiting for the file to be read, for the image to be decoded and drawn, and
  for IndexedDB; \<open>others1\<close>, \<open>others2\<close> and \<open>others3\<close> are what the rest of the
  program (other uploads of the same batch, for one) does to the stores during these three
  waits.
\<close>

definition add_with :: "(nat list \<Rightarrow> string) \<Rightarrow> string \<Rightarrow> nat \<Rightarrow> nat \<Rightarrow> jsfile \<Rightarrow> (system \<Rightarrow> system) \<Rightarrow> (system \<Rightarrow> system) \<Rightarrow> (system \<Rightarrow> system) \<Rightarrow> system \<Rightarrow> stage list \<times> (error + photo) \<times> system" where
  "add_with digest now ts albumId file others1 others2 others3 s =
     (if f_type file \<notin> set validFormats then
        ([ValidateFormat],
         Inl (Error (''Unsupported file format: '' @ f_type file @
                     ''. Supported formats: JPEG, PNG, WebP, HEIC'')), s)
      else
        (case Photo_countByAlbum albumId s of
           Inl e \<Rightarrow> ([ValidateFormat, CheckCapacity], Inl e, s)
         | Inr photoCount \<Rightarrow>
             if photoCount \<ge> 500 then
               ([ValidateFormat, CheckCapacity],
                Inl (Error ''Album has reached maximum photo limit (500)''), s)
             else
               (case calculateFileHash digest file of
                  Inl e \<Rightarrow>
                    ([ValidateFormat, CheckCapacity, ComputeFingerprint], Inl e, others1 s)
                | Inr fileHash \<Rightarrow>
                    let s1 = others1 s in
                    (case Photo_findByAlbumAndHash albumId fileHash s1 of
                       Inl e \<Rightarrow>
                         ([ValidateFormat, CheckCapacity, ComputeFingerprint, DuplicateLookup],
                          Inl e, s1)
                     | Inr (Some existingPhoto) \<Rightarrow>
                         ([ValidateFormat, CheckCapacity, ComputeFingerprint, DuplicateLookup],
                          Inl (Error (''Duplicate photo detected: '' @ f_name file @
                                      '' already exists in this album'')), s1)
                     | Inr None \<Rightarrow>
                         let s2 = others2 s1 in
                         (case getImageDimensions file of
                            Inl e \<Rightarrow>
                              ([ValidateFormat, CheckCapacity, ComputeFingerprint,
                                DuplicateLookup, ExtractDimensions], Inl e, s2)
                          | Inr (width, height) \<Rightarrow>
                              (case generateThumbnail file of
                                 Inl e \<Rightarrow>
                                   ([ValidateFormat, CheckCapacity, ComputeFingerprint,
                                     DuplicateLookup, ExtractDimensions, DeriveThumbnail],
                                    Inl e, s2)
                               | Inr thumbnailBlob \<Rightarrow>
                                   (case Photo_create now ts others3
                                           \<lparr>d_album_id = albumId, d_filename = f_name file,
                                            d_file_hash = fileHash, d_file_size = f_size file,
                                            d_format = format_of (f_type file),
                                            d_width = width, d_height = height\<rparr>
                                           file thumbnailBlob s2 of
                                      (stages, r, s') \<Rightarrow>
                                        ([ValidateFormat, CheckCapacity, ComputeFingerprint,
                                          DuplicateLookup, ExtractDimensions, DeriveThumbnail]
                                         @ stages, r, s'))))))))"

text \<open>A call of \<^verbatim>\<open>add\<close> during which nothing else touches the stores.\<close>

definition add_run :: "(nat list \<Rightarrow> string) \<Rightarrow> string \<Rightarrow> nat \<Rightarrow> nat \<Rightarrow> jsfile \<Rightarrow> system \<Rightarrow> stage list \<times> (error + photo) \<times> system" where
  "add_run digest now ts albumId file s = add_with digest now ts albumId file id id id s"

definition add :: "(nat list \<Rightarrow> string) \<Rightarrow> string \<Rightarrow> nat \<Rightarrow> nat \<Rightarrow> jsfile \<Rightarrow> system \<Rightarrow> (error + photo) \<times> system" where
  "add digest now ts albumId file s = snd (add_run digest now ts albumId file s)"

subsection \<open>Upload queue (\<^verbatim>\<open>js/services/uploadService.js\<close>)\<close>

record metadata =
  m_filename :: string
  m_size :: nat

text \<open>
  How an upload task ends: it resolves with a photo, it rejects with an error that has a
  message, or it rejects with a value that has no string \<^verbatim>\<open>message\<close>, in which case
  \<^verbatim>\<open>error.message.includes\<close> throws inside the \<^verbatim>\<open>catch\<close> block of
  \<^verbatim>\<open>executeUpload\<close> and the promise of \<^verbatim>\<open>executeUpload\<close> itself rejects.
\<close>

datatype outcome = Resolved photo | Rejected error | RejectedBare

text \<open>
  What the progress callback receives as its third argument: the object
  \<^verbatim>\<open>executeUpload\<close> returns, or \<^verbatim>\<open>{ error, metadata }\<close> from the \<^verbatim>\<open>.catch\<close> handler.
\<close>

datatype report = Success metadata photo | Failure metadata string | Thrown metadata

fun report_metadata :: "report \<Rightarrow> metadata" where
  "report_metadata (Success m p) = m"
| "report_metadata (Failure m e) = m"
| "report_metadata (Thrown m) = m"

record results =
  successful :: "(metadata \<times> photo) list"
  failed :: "(metadata \<times> string) list"
  duplicates :: "(metadata \<times> string) list"

text \<open>
  Where \<^verbatim>\<open>process\<close> stands: at the test of the outer \<^verbatim>\<open>while\<close>, inside the inner
  \<^verbatim>\<open>while\<close> that starts uploads, suspended at \<^verbatim>\<open>await Promise.race\<close> with no
  promise settled yet, suspended with the race won (the continuation is scheduled, other
  promises may still settle before it runs), or returned.
\<close>

datatype pc = Test | Fill | Await | Woken | Done

text \<open>
  The queue object together with the locals of \<^verbatim>\<open>process\<close>. A promise in \<open>active\<close> is
  a number (its identity) with the metadata of its item. \<open>progress\<close> collects the calls
  of the progress callback: current, total, report.
\<close>

record upload_queue =
  maxConcurrent :: nat
  queue :: "metadata list"
  active :: "(nat \<times> metadata) list"
  results :: results
  total :: nat
  completed :: nat
  created :: nat
  progress :: "(nat \<times> nat \<times> report) list"
  at :: pc

text \<open>
  \<^verbatim>\<open>new UploadQueue(maxConcurrent)\<close>, one \<^verbatim>\<open>add\<close> per item, and the entry of
  \<^verbatim>\<open>process\<close>.
\<close>

definition process_init :: "nat \<Rightarrow> metadata list \<Rightarrow> upload_queue" where
  "process_init n items =
     \<lparr>maxConcurrent = n, queue = items, active = [],
      results = \<lparr>successful = [], failed = [], duplicates = []\<rparr>,
      total = length items, completed = 0, created = 0, progress = [], at = Test\<rparr>"

text \<open>The body of the inner loop: shift the next item, start it, push its promise.\<close>

definition start_next :: "upload_queue \<Rightarrow> upload_queue" where
  "start_next q =
     (case queue q of
        [] \<Rightarrow> q
      | item # rest \<Rightarrow>
          q\<lparr>queue := rest, active := active q @ [(created q, item)],
            created := Suc (created q)\<rparr>)"

text \<open>\<^verbatim>\<open>executeUpload\<close> after the task has ended: the entry in \<^verbatim>\<open>results\<close> and the report.\<close>

fun executeUpload :: "metadata \<Rightarrow> outcome \<Rightarrow> results \<Rightarrow> results \<times> report" where
  "executeUpload m (Resolved p) r = (r\<lparr>successful := successful r @ [(m, p)]\<rparr>, Success m p)"
| "executeUpload m (Rejected e) r =
     (if str_includes (message e) ''Duplicate photo''
      then r\<lparr>duplicates := duplicates r @ [(m, message e)]\<rparr>
      else r\<lparr>failed := failed r @ [(m, message e)]\<rparr>,
      Failure m (message e))"
| "executeUpload m RejectedBare r = (r, Thrown m)"

text \<open>
  A promise of \<open>active\<close> settles: \<^verbatim>\<open>executeUpload\<close> finishes and the handler counts the
  item, takes the promise out of \<open>active\<close> and calls the progress callback.
\<close>

definition settle :: "nat \<Rightarrow> metadata \<Rightarrow> outcome \<Rightarrow> upload_queue \<Rightarrow> upload_queue" where
  "settle p m out q =
     (case executeUpload m out (results q) of
        (r, rep) \<Rightarrow>
          q\<lparr>results := r, completed := Suc (completed q),
            active := filter (\<lambda>x. fst x \<noteq> p) (active q),
            progress := progress q @ [(Suc (completed q), total q, rep)],
            at := Woken\<rparr>)"

text \<open>
  One step of the event loop while \<^verbatim>\<open>process\<close> runs. The function itself moves only at
  \<open>Test\<close>, \<open>Fill\<close> and \<open>Woken\<close>; promises settle only while it is suspended, in any order
  and with any outcome.
\<close>

inductive step :: "upload_queue \<Rightarrow> upload_queue \<Rightarrow> bool" where
  enter: "at q = Test \<Longrightarrow> queue q \<noteq> [] \<or> active q \<noteq> [] \<Longrightarrow> step q (q\<lparr>at := Fill\<rparr>)"
| return: "at q = Test \<Longrightarrow> queue q = [] \<Longrightarrow> active q = [] \<Longrightarrow> step q (q\<lparr>at := Done\<rparr>)"
| start: "at q = Fill \<Longrightarrow> length (active q) < maxConcurrent q \<Longrightarrow> queue q \<noteq> [] \<Longrightarrow>
     step q (start_next q)"
| wait: "at q = Fill \<Longrightarrow> \<not> (length (active q) < maxConcurrent q \<and> queue q \<noteq> []) \<Longrightarrow>
     active q \<noteq> [] \<Longrightarrow> step q (q\<lparr>at := Await\<rparr>)"
| skip: "at q = Fill \<Longrightarrow> \<not> (length (active q) < maxConcurrent q \<and> queue q \<noteq> []) \<Longrightarrow>
     active q = [] \<Longrightarrow> step q (q\<lparr>at := Test\<rparr>)"
| settles: "at q = Await \<or> at q = Woken \<Longrightarrow> (p, m) \<in> set (active q) \<Longrightarrow>
     step q (settle p m out q)"
| resume: "at q = Woken \<Longrightarrow> step q (q\<lparr>at := Test\<rparr>)"

code_pred step .

text \<open>The states \<^verbatim>\<open>uploadPhotos\<close> can be in: it builds \<^verbatim>\<open>new UploadQueue(3)\<close>.\<close>

definition reachable :: "nat \<Rightarrow> metadata list \<Rightarrow> upload_queue \<Rightarrow> bool" where
  "reachable n items q = step\<^sup>*\<^sup>* (process_init n items) q"

definition uploadPhotos_states :: "metadata list \<Rightarrow> upload_queue \<Rightarrow> bool" where
  "uploadPhotos_states items q = reachable 3 items q"

text \<open>A measure that every step decreases when \<open>maxConcurrent\<close> is positive.\<close>

definition steps_left :: "upload_queue \<Rightarrow> nat" where
  "steps_left q =
     5 * (2 * length (queue q) + length (active q)) +
     (case at q of
        Woken \<Rightarrow> 4 | Test \<Rightarrow> 3
      | Fill \<Rightarrow> (if queue q = [] \<and> active q = [] then 4 else 2)
      | Await \<Rightarrow> 1 | Done \<Rightarrow> 0)"

text \<open>
  The files the progress callback has reported, and what holds in every state of a run
  over \<open>items\<close> with \<open>n\<close> slots.
\<close>

definition reported :: "upload_queue \<Rightarrow> metadata list" where
  "reported q = map (\<lambda>(c, t, r). report_metadata r) (progress q)"

definition queue_inv :: "nat \<Rightarrow> metadata list \<Rightarrow> upload_queue \<Rightarrow> bool" where
  "queue_inv n items q =
     (maxConcurrent q = n \<and> total q = length items \<and>
      map (\<lambda>(c, t, r). (c, t)) (progress q) = map (\<lambda>i. (Suc i, length items)) [0..<completed q] \<and>
      mset (reported q) + mset (map snd (active q)) + mset (queue q) = mset items \<and>
      length (active q) \<le> n \<and>
      distinct (map fst (active q)) \<and> (\<forall>x \<in> set (active q). fst x < created q) \<and>
      (at q = Await \<longrightarrow> active q \<noteq> [] \<and> (length (active q) = n \<or> queue q = [])) \<and>
      (at q = Woken \<longrightarrow> length (active q) < n) \<and>
      (at q = Done \<longrightarrow> queue q = [] \<and> active q = []))"

subsection \<open>What an ingestion writes\<close>

text \<open>
  The row that \<^verbatim>\<open>Photo.create\<close> inserts for a file, and the database after the INSERT
  and the export that ends \<^verbatim>\<open>execute\<close>.
\<close>

definition new_row :: "(nat list \<Rightarrow> string) \<Rightarrow> string \<Rightarrow> nat \<Rightarrow> jsfile \<Rightarrow> database \<Rightarrow> photo" where
  "new_row digest now albumId file d =
     \<lparr>p_id = next_rowid (photos_seq d) (map p_id (photos d)), p_album_id = albumId,
      p_filename = f_name file, p_file_hash = digest (f_bytes file),
      p_upload_timestamp = now, p_file_size = f_size file,
      p_format = format_of (f_type file), p_width = fst (the (f_image file)),
      p_height = snd (the (f_image file))\<rparr>"

definition with_row :: "photo \<Rightarrow> database \<Rightarrow> database" where
  "with_row row d = d\<lparr>photos := photos d @ [row], photos_seq := p_id row, last_insert_rowid := 0\<rparr>"

subsection \<open>Example data\<close>

definition album_row :: "nat \<Rightarrow> string \<Rightarrow> string \<Rightarrow> int \<Rightarrow> string \<Rightarrow> album" where
  "album_row i nm dt pos ts =
     \<lparr>a_id = i, a_name = nm, a_date = dt, a_custom_order = Some pos,
      a_created_at = ts, a_updated_at = ts\<rparr>"

definition empty_idb :: blobstore where
  "empty_idb = \<lparr>records = [], faults = []\<rparr>"

definition albums_only :: "album list \<Rightarrow> system" where
  "albums_only as =
     \<lparr>db = Some \<lparr>albums = as, photos = [], album_order = [],
                  albums_seq = fold max (map a_id as) 0, photos_seq = 0,
                  last_insert_rowid = 0\<rparr>,
      idb = empty_idb\<rparr>"

text \<open>
  Three albums: A and B share a date, A was created first; C has a later date.
\<close>

definition three_albums :: "album list" where
  "three_albums =
     [album_row 1 ''A'' ''2024-01-01'' 0 ''2025-11-19T10:00:00.000Z'',
      album_row 2 ''B'' ''2024-01-01'' 1 ''2025-11-19T10:05:00.000Z'',
      album_row 3 ''C'' ''2024-02-01'' 2 ''2025-11-19T10:10:00.000Z'']"

text \<open>
  A digest to run the examples with, the hex encoding of the bytes themselves; the
  theorems hold for every digest function.
\<close>

definition hex_digit :: "nat \<Rightarrow> char" where
  "hex_digit n = ''0123456789abcdef'' ! (n mod 16)"

definition hex_of_bytes :: "nat list \<Rightarrow> string" where
  "hex_of_bytes bs = concat (map (\<lambda>b. [hex_digit (b div 16), hex_digit b]) bs)"

definition beach_jpg :: jsfile where
  "beach_jpg =
     \<lparr>f_name = ''beach.jpg'', f_type = ''image/jpeg'', f_size = 3, f_bytes = [255, 216, 255],
      f_readable = True, f_image = Some (4000, 3000), f_thumbable = True\<rparr>"

definition copy_jpg :: jsfile where
  "copy_jpg = beach_jpg\<lparr>f_name := ''copy.jpg''\<rparr>"

definition dunes_png :: jsfile where
  "dunes_png =
     \<lparr>f_name = ''dunes.png'', f_type = ''image/png'', f_size = 2, f_bytes = [137, 80],
      f_readable = True, f_image = Some (640, 480), f_thumbable = True\<rparr>"

text \<open>
  Album 1 one photo short of the limit: 499 rows, and in the blob store the record of the
  last of them, since every upload is put under key 0.
\<close>

definition filler_photo :: "nat \<Rightarrow> photo" where
  "filler_photo i =
     \<lparr>p_id = Suc i, p_album_id = 1, p_filename = ''img'' @ nat_to_string i @ ''.png'',
      p_file_hash = ''seed'' @ nat_to_string i, p_upload_timestamp = ''2025-11-19T11:00:00.000Z'',
      p_file_size = 2, p_format = ''png'', p_width = 640, p_height = 480\<rparr>"

definition filler_blob :: "nat \<Rightarrow> blob_rec" where
  "filler_blob i =
     \<lparr>b_id = 0, b_albumId = 1,
      b_photo = dunes_png\<lparr>f_name := ''img'' @ nat_to_string i @ ''.png''\<rparr>,
      b_thumbnail = \<lparr>t_size = 300, t_crop = 480, t_sx2 = 160, t_sy2 = 0, t_source = [137, 80]\<rparr>,
      b_fileHash = ''seed'' @ nat_to_string i, b_timestamp = 1763550000000\<rparr>"

definition nearly_full :: system where
  "nearly_full =
     \<lparr>db = Some \<lparr>albums = three_albums, photos = map filler_photo [0..<499], album_order = [],
                  albums_seq = 3, photos_seq = 499, last_insert_rowid = 0\<rparr>,
      idb = \<lparr>records = [filler_blob 498], faults = []\<rparr>\<rparr>"

definition beach_row :: photo where
  "beach_row =
     \<lparr>p_id = 1, p_album_id = 1, p_filename = ''beach.jpg'', p_file_hash = ''ffd8ff'',
      p_upload_timestamp = ''2025-11-20T09:00:00.000Z'', p_file_size = 3, p_format = ''jpeg'',
      p_width = 4000, p_height = 3000\<rparr>"

definition beach_blob :: blob_rec where
  "beach_blob =
     \<lparr>b_id = 1, b_albumId = 1, b_photo = beach_jpg,
      b_thumbnail = \<lparr>t_size = 300, t_crop = 3000, t_sx2 = 1000, t_sy2 = 0,
                     t_source = [255, 216, 255]\<rparr>,
      b_fileHash = ''ffd8ff'', b_timestamp = 1763629200000\<rparr>"

text \<open>
  The stores after \<^verbatim>\<open>beach.jpg\<close> went into album 1 of the three albums: the row has
  rowid 1, the IndexedDB record has key 0.
\<close>

definition after_beach :: system where
  "after_beach =
     \<lparr>db = Some \<lparr>albums = three_albums, photos = [beach_row], album_order = [],
                  albums_seq = 3, photos_seq = 1, last_insert_rowid = 0\<rparr>,
      idb = \<lparr>records = [beach_blob\<lparr>b_id := 0\<rparr>], faults = []\<rparr>\<rparr>"

definition dunes_row :: photo where
  "dunes_row =
     \<lparr>p_id = 2, p_album_id = 1, p_filename = ''dunes.png'', p_file_hash = ''8950'',
      p_upload_timestamp = ''2025-11-20T09:02:00.000Z'', p_file_size = 2, p_format = ''png'',
      p_width = 640, p_height = 480\<rparr>"

definition dunes_blob :: blob_rec where
  "dunes_blob =
     \<lparr>b_id = 2, b_albumId = 1, b_photo = dunes_png,
      b_thumbnail = \<lparr>t_size = 300, t_crop = 480, t_sx2 = 160, t_sy2 = 0, t_source = [137, 80]\<rparr>,
      b_fileHash = ''8950'', b_timestamp = 1763629320000\<rparr>"


definition m_beach :: metadata where
  "m_beach = \<lparr>m_filename = ''beach.jpg'', m_size = 3\<rparr>"

definition m_copy :: metadata where
  "m_copy = \<lparr>m_filename = ''copy.jpg'', m_size = 3\<rparr>"

definition m_dunes :: metadata where
  "m_dunes = \<lparr>m_filename = ''dunes.png'', m_size = 2\<rparr>"

definition m_gif :: metadata where
  "m_gif = \<lparr>m_filename = ''clip.gif'', m_size = 9\<rparr>"

definition duplicate_error :: error where
  "duplicate_error = Error ''Duplicate photo detected: copy.jpg already exists in this album''"

text \<open>
  A run over two files: both start, the first resolves, the second is rejected as a
  duplicate, \<^verbatim>\<open>process\<close> wakes up and returns.
\<close>

definition two_started :: upload_queue where
  "two_started = start_next (start_next ((process_init 3 [m_beach, m_copy])\<lparr>at := Fill\<rparr>))"

definition two_settled :: upload_queue where
  "two_settled =
     settle 1 m_copy (Rejected duplicate_error)
       (settle 0 m_beach (Resolved beach_row) (two_started\<lparr>at := Await\<rparr>))"

definition two_done :: upload_queue where
  "two_done = two_settled\<lparr>at := Done\<rparr>"

text \<open>
  A run over four files: three start, \<^verbatim>\<open>process\<close> waits, the second upload fails on an
  unsupported format.
\<close>

definition four_waiting :: upload_queue where
  "four_waiting =
     (start_next (start_next (start_next
        ((process_init 3 [m_beach, m_gif, m_dunes, m_copy])\<lparr>at := Fill\<rparr>))))\<lparr>at := Await\<rparr>"

definition four_one_settled :: upload_queue where
  "four_one_settled =
     settle 1 m_gif
       (Rejected (Error ''Unsupported file format: image/gif. Supported formats: JPEG, PNG, WebP, HEIC''))
       four_waiting"

section \<open>Properties\<close>

subsection \<open>Sorting\<close>

lemma mset_insort_by: "mset (insort_by le x xs) = add_mset x (mset xs)"
  by (induction xs) auto

lemma mset_order_by: "mset (order_by le xs) = mset xs"
  by (induction xs) (auto simp: order_by_def mset_insort_by)

lemma set_order_by: "set (order_by le xs) = set xs"
  using mset_order_by [of le xs] by (metis set_mset_mset)

lemma length_order_by: "length (order_by le xs) = length xs"
  using mset_order_by [of le xs] by (metis size_mset)

lemma sorted_insort_by:
  assumes tot: "\<And>a b. le a b \<or> le b a" and tr: "\<And>a b c. le a b \<Longrightarrow> le b c \<Longrightarrow> le a c"
  shows "sorted_wrt le xs \<Longrightarrow> sorted_wrt le (insort_by le x xs)"
proof (induction xs)
  case Nil
  then show ?case by simp
next
  case (Cons y ys)
  show ?case
  proof (cases "le x y")
    case True
    then have "\<forall>z\<in>set ys. le x z" using Cons.prems tr by auto
    with True Cons.prems show ?thesis by simp
  next
    case False
    then have yx: "le y x" using tot by blast
    have "set (insort_by le x ys) = insert x (set ys)"
      using mset_insort_by [of le x ys] by (metis set_mset_add_mset_insert set_mset_mset)
    with False yx Cons show ?thesis by auto
  qed
qed

lemma sorted_order_by:
  assumes tot: "\<And>a b. le a b \<or> le b a" and tr: "\<And>a b c. le a b \<Longrightarrow> le b c \<Longrightarrow> le a c"
  shows "sorted_wrt le (order_by le xs)"
proof (induction xs)
  case Nil
  then show ?case by (simp add: order_by_def)
next
  case (Cons x xs)
  have "order_by le (x # xs) = insort_by le x (order_by le xs)" by (simp add: order_by_def)
  with Cons sorted_insort_by [OF tot tr] show ?case by simp
qed

lemma custom_order_le_total: "custom_order_le a b \<or> custom_order_le b a"
  by (auto simp: custom_order_le_def)

lemma custom_order_le_trans: "custom_order_le a b \<Longrightarrow> custom_order_le b c \<Longrightarrow> custom_order_le a c"
  by (auto simp: custom_order_le_def)

lemma sorted_findAll: "sorted (map a_custom_order (order_by custom_order_le xs))"
proof -
  have "sorted_wrt custom_order_le (order_by custom_order_le xs)"
    by (rule sorted_order_by) (auto simp: custom_order_le_def)
  then show ?thesis by (simp add: sorted_map custom_order_le_def [abs_def])
qed

lemma date_created_desc_total: "date_created_desc a b \<or> date_created_desc b a"
  by (auto simp: date_created_desc_def)

lemma date_created_desc_trans:
  "date_created_desc a b \<Longrightarrow> date_created_desc b c \<Longrightarrow> date_created_desc a c"
  by (auto simp: date_created_desc_def)

subsection \<open>Reordering albums\<close>

lemma find_a_id: "find (\<lambda>a. a_id a = x) found = Some a \<Longrightarrow> a_id a = x"
  by (auto simp: find_Some_iff)

lemma find_None_a_id: "(find (\<lambda>a. a_id a = x) found = None) = (x \<notin> a_id ` set found)"
  by (auto simp: find_None_iff)

lemma updateOrder_ids: "map a_id (albums (updateOrder now i n d)) = map a_id (albums d)"
  by (simp add: updateOrder_def set_order_def)

lemma updateOrder_rest:
  "photos (updateOrder now i n d) = photos d \<and> album_order (updateOrder now i n d) = album_order d \<and>
   albums_seq (updateOrder now i n d) = albums_seq d \<and> photos_seq (updateOrder now i n d) = photos_seq d \<and>
   last_insert_rowid (updateOrder now i n d) = last_insert_rowid d"
  by (simp add: updateOrder_def)

lemma reorder_from_ids:
  "map a_id (albums (reorder_from now found k ids d)) = map a_id (albums d)"
  by (induction ids arbitrary: k d) (auto simp: updateOrder_ids split: option.splits)

lemma reorder_from_photos:
  "photos (reorder_from now found k ids d) = photos d"
  by (induction ids arbitrary: k d) (auto simp: updateOrder_rest split: option.splits)

lemma reorder_from_length:
  "length (albums (reorder_from now found k ids d)) = length (albums d)"
  using reorder_from_ids [of now found k ids d] by (metis length_map)

lemma reorder_from_untouched:
  "j < length (albums d) \<Longrightarrow> a_id (albums d ! j) \<notin> set ids \<Longrightarrow>
   albums (reorder_from now found k ids d) ! j = albums d ! j"
proof (induction ids arbitrary: k d)
  case Nil
  then show ?case by simp
next
  case (Cons x xs)
  let ?d1 = "case find (\<lambda>a. a_id a = x) found of None \<Rightarrow> d | Some a \<Rightarrow> updateOrder now (a_id a) (int k) d"
  have ids1: "map a_id (albums ?d1) = map a_id (albums d)"
    by (simp add: updateOrder_ids split: option.splits)
  then have len1: "length (albums ?d1) = length (albums d)" by (metis length_map)
  have idj: "a_id (albums ?d1 ! j) = a_id (albums d ! j)"
    using ids1 Cons.prems(1) len1 by (metis nth_map)
  have same: "albums ?d1 ! j = albums d ! j"
    using Cons.prems by (auto simp: updateOrder_def set_order_def dest: find_a_id split: option.splits)
  have "albums (reorder_from now found (Suc k) xs ?d1) ! j = albums ?d1 ! j"
    using Cons.IH [of ?d1 "Suc k"] Cons.prems len1 idj by simp
  with same show ?case by simp
qed

lemma reorder_from_position:
  "j < length (albums d) \<Longrightarrow> i < length ids \<Longrightarrow> ids ! i = a_id (albums d ! j) \<Longrightarrow>
   ids ! i \<notin> set (drop (Suc i) ids) \<Longrightarrow> ids ! i \<in> a_id ` set found \<Longrightarrow>
   a_custom_order (albums (reorder_from now found k ids d) ! j) = Some (int (k + i))"
proof (induction ids arbitrary: k d i)
  case Nil
  then show ?case by simp
next
  case (Cons x xs)
  let ?d1 = "case find (\<lambda>a. a_id a = x) found of None \<Rightarrow> d | Some a \<Rightarrow> updateOrder now (a_id a) (int k) d"
  have ids1: "map a_id (albums ?d1) = map a_id (albums d)"
    by (simp add: updateOrder_ids split: option.splits)
  then have len1: "length (albums ?d1) = length (albums d)" by (metis length_map)
  have idj: "a_id (albums ?d1 ! j) = a_id (albums d ! j)"
    using ids1 Cons.prems(1) len1 by (metis nth_map)
  show ?case
  proof (cases i)
    case 0
    then have x: "x = a_id (albums d ! j)" and notin: "x \<notin> set xs" and fnd: "x \<in> a_id ` set found"
      using Cons.prems by auto
    obtain a where a: "find (\<lambda>a. a_id a = x) found = Some a"
      using fnd find_None_a_id [of x found] by (cases "find (\<lambda>a. a_id a = x) found") auto
    then have "a_id a = x" by (rule find_a_id)
    with a x Cons.prems(1) have "a_custom_order (albums ?d1 ! j) = Some (int k)"
      by (simp add: updateOrder_def set_order_def)
    moreover have "albums (reorder_from now found (Suc k) xs ?d1) ! j = albums ?d1 ! j"
      using reorder_from_untouched [of j ?d1 xs now found "Suc k"] len1 idj x notin Cons.prems(1)
      by simp
    ultimately show ?thesis using 0 by simp
  next
    case (Suc i')
    have "a_custom_order (albums (reorder_from now found (Suc k) xs ?d1) ! j) = Some (int (Suc k + i'))"
      using Cons.IH [of ?d1 i' "Suc k"] Cons.prems Suc len1 idj by simp
    then show ?thesis using Suc by simp
  qed
qed

lemma find_in_ids:
  assumes "x \<in> a_id ` set as"
  shows "\<exists>a. find (\<lambda>a. a_id a = x) as = Some a \<and> a \<in> set as \<and> a_id a = x"
proof -
  obtain a where a: "find (\<lambda>a. a_id a = x) as = Some a"
    using assms find_None_a_id [of x as] by (cases "find (\<lambda>a. a_id a = x) as") auto
  then have "a_id a = x" by (rule find_a_id)
  moreover have "a \<in> set as" using a by (auto simp: find_Some_iff)
  ultimately show ?thesis using a by blast
qed

lemma listed_order:
  assumes dist: "distinct (map a_id as)"
    and pos: "\<forall>i<length ids. \<forall>a\<in>set as. a_id a = ids ! i \<longrightarrow> a_custom_order a = Some (int i)"
    and dids: "distinct ids"
    and sub: "set ids \<subseteq> a_id ` set as"
  shows "filter (\<lambda>x. x \<in> set ids) (map a_id (order_by custom_order_le as)) = ids"
proof -
  let ?L = "order_by custom_order_le as"
  let ?F = "filter (\<lambda>a. a_id a \<in> set ids) ?L"
  let ?Y = "map (\<lambda>x. the (find (\<lambda>a. a_id a = x) as)) ids"
  have inj_id: "inj_on a_id (set as)" and das: "distinct as"
    using dist by (auto simp: distinct_map)
  have setL: "set ?L = set as" by (rule set_order_by)
  have dL: "distinct ?L"
    using das mset_order_by [of custom_order_le as] by (metis mset_eq_imp_distinct_iff)
  have Y_nth: "\<And>i. i < length ids \<Longrightarrow>
      ?Y ! i \<in> set as \<and> a_id (?Y ! i) = ids ! i \<and> a_custom_order (?Y ! i) = Some (int i)"
  proof -
    fix i assume i: "i < length ids"
    then have "ids ! i \<in> a_id ` set as" using sub by (metis nth_mem subsetD)
    then obtain a where a: "find (\<lambda>a. a_id a = ids ! i) as = Some a" "a \<in> set as" "a_id a = ids ! i"
      using find_in_ids by blast
    then have "?Y ! i = a" using i by simp
    with a pos i show "?Y ! i \<in> set as \<and> a_id (?Y ! i) = ids ! i \<and> a_custom_order (?Y ! i) = Some (int i)"
      by auto
  qed
  have mapY: "map a_custom_order ?Y = map (\<lambda>i. Some (int i)) [0..<length ids]"
    by (rule nth_equalityI) (use Y_nth in auto)
  have idY: "map a_id ?Y = ids"
    by (rule nth_equalityI) (use Y_nth in auto)
  have sY: "sorted (map a_custom_order ?Y)"
    unfolding mapY by (auto simp: sorted_map intro!: sorted_wrt_mono_rel [of _ "(\<le>)"])
  have dY: "distinct (map a_custom_order ?Y)"
    unfolding mapY by (auto simp: distinct_map inj_on_def)
  have setF: "set ?F = {a \<in> set as. a_id a \<in> set ids}" using setL by auto
  have setY: "set ?Y = {a \<in> set as. a_id a \<in> set ids}"
  proof (intro equalityI subsetI)
    fix a assume "a \<in> set ?Y"
    then obtain i where "i < length ids" "a = ?Y ! i"
      by (metis in_set_conv_nth length_map)
    with Y_nth [of i] show "a \<in> {a \<in> set as. a_id a \<in> set ids}" by auto
  next
    fix a assume "a \<in> {a \<in> set as. a_id a \<in> set ids}"
    then have a: "a \<in> set as" "a_id a \<in> set ids" by auto
    then obtain i where i: "i < length ids" "ids ! i = a_id a" by (metis in_set_conv_nth)
    with Y_nth [of i] inj_id a have "?Y ! i = a" by (auto dest: inj_onD)
    with i show "a \<in> set ?Y" by (metis length_map nth_mem)
  qed
  have custom: "\<And>a. a \<in> set ?F \<Longrightarrow> \<exists>i<length ids. a_id a = ids ! i \<and> a_custom_order a = Some (int i)"
  proof -
    fix a assume "a \<in> set ?F"
    then have a: "a \<in> set as" "a_id a \<in> set ids" using setF by auto
    then obtain i where i: "i < length ids" "ids ! i = a_id a" by (metis in_set_conv_nth)
    with pos a show "\<exists>i<length ids. a_id a = ids ! i \<and> a_custom_order a = Some (int i)" by auto
  qed
  have sF: "sorted (map a_custom_order ?F)"
  proof -
    have "sorted (map a_custom_order ?L)" by (rule sorted_findAll)
    then have "sorted_wrt (\<lambda>a b. a_custom_order a \<le> a_custom_order b) ?L" by (simp add: sorted_map)
    then have "sorted_wrt (\<lambda>a b. a_custom_order a \<le> a_custom_order b) ?F" by (rule sorted_wrt_filter)
    then show ?thesis by (simp add: sorted_map)
  qed
  have injF: "inj_on a_custom_order (set ?F)"
  proof (rule inj_onI)
    fix a b assume ab: "a \<in> set ?F" "b \<in> set ?F" "a_custom_order a = a_custom_order b"
    from custom [OF ab(1)] custom [OF ab(2)] ab(3) have "a_id a = a_id b" by auto
    moreover have "a \<in> set as" "b \<in> set as" using ab setF by auto
    ultimately show "a = b" using inj_id by (auto dest: inj_onD)
  qed
  have dF: "distinct (map a_custom_order ?F)"
    using dL injF by (simp add: distinct_map)
  have injFY: "inj_on a_custom_order (set ?F \<union> set ?Y)"
    using injF setF setY by simp
  have "?F = ?Y"
    by (rule map_sorted_distinct_set_unique [OF injFY sF dF sY dY]) (simp only: setF setY)
  then have "map a_id ?F = ids" using idY by simp
  then show ?thesis by (simp add: filter_map o_def)
qed

lemma filter_all: "(\<And>x. x \<in> set xs \<Longrightarrow> P x) \<Longrightarrow> filter P xs = xs"
  by (induction xs) auto

lemma reorder_from_albums_update:
  "(reorder_from now found k ids d)\<lparr>albums := X\<rparr> = d\<lparr>albums := X\<rparr>"
  by (induction ids arbitrary: k d) (auto simp: updateOrder_def split: option.splits)

lemma reorder_from_only_albums:
  "(reorder_from now found k ids d)\<lparr>albums := albums d\<rparr> = d"
  by (simp add: reorder_from_albums_update)

text \<open>
  Claim C10. With an open database \<^verbatim>\<open>reorderAlbums\<close> resolves for every list, also one
  that holds ids of no album: no row is added or removed and nothing but positions and
  update stamps changes, an album whose id is not in the list keeps its row, and an album
  whose id is in the list gets the index of that id as its position (for an id listed
  twice, the index of its last occurrence, the update that runs last).
\<close>

theorem reorderAlbums_unknown_ids_skipped:
  assumes "db s = Some d"
  shows "\<exists>d'. reorderAlbums now ids s = (Inr (), s\<lparr>db := Some d'\<rparr>) \<and>
           d'\<lparr>albums := albums d\<rparr> = d \<and>
           map a_id (albums d') = map a_id (albums d) \<and>
           (\<forall>j<length (albums d). a_id (albums d ! j) \<notin> set ids \<longrightarrow> albums d' ! j = albums d ! j) \<and>
           (\<forall>j<length (albums d). \<forall>i<length ids.
              ids ! i = a_id (albums d ! j) \<and> ids ! i \<notin> set (drop (Suc i) ids) \<longrightarrow>
              a_custom_order (albums d' ! j) = Some (int i))"
proof (cases "ids = []")
  case True
  have "s\<lparr>db := Some d\<rparr> = s" using assms by simp
  with True show ?thesis by (intro exI [of _ d]) (simp add: reorderAlbums_def)
next
  case False
  let ?d' = "reorder_from now (albums d) 0 ids d"
  have run: "reorderAlbums now ids s = (Inr (), s\<lparr>db := Some ?d'\<rparr>)"
    using False assms by (simp add: reorderAlbums_def getDatabase_def)
  have pos: "\<forall>j<length (albums d). \<forall>i<length ids.
              ids ! i = a_id (albums d ! j) \<and> ids ! i \<notin> set (drop (Suc i) ids) \<longrightarrow>
              a_custom_order (albums ?d' ! j) = Some (int i)"
  proof (intro allI impI)
    fix j i assume j: "j < length (albums d)" and i: "i < length ids"
      and h: "ids ! i = a_id (albums d ! j) \<and> ids ! i \<notin> set (drop (Suc i) ids)"
    have mem: "ids ! i \<in> a_id ` set (albums d)" using h j by (metis imageI nth_mem)
    from h have h1: "ids ! i = a_id (albums d ! j)" and h2: "ids ! i \<notin> set (drop (Suc i) ids)"
      by blast+
    show "a_custom_order (albums ?d' ! j) = Some (int i)"
      using reorder_from_position [where now = now and k = 0, OF j i h1 h2 mem] by simp
  qed
  show ?thesis
    using run pos
    by (intro exI [of _ ?d'])
       (simp add: reorder_from_only_albums reorder_from_ids reorder_from_untouched)
qed

lemma reorderAlbums_db:
  assumes "db s = Some d"
  shows "db (snd (reorderAlbums now ids s)) = Some (reorder_from now (albums d) 0 ids d)"
  using assms by (cases "ids = []") (simp_all add: reorderAlbums_def getDatabase_def)

lemma reorder_positions_set:
  assumes dids: "distinct ids" and sub: "set ids \<subseteq> a_id ` set (albums d)"
    and i: "i < length ids" and a: "a \<in> set (albums (reorder_from now (albums d) 0 ids d))"
    and ai: "a_id a = ids ! i"
  shows "a_custom_order a = Some (int i)"
proof -
  let ?d' = "reorder_from now (albums d) 0 ids d"
  obtain j where j: "j < length (albums ?d')" "albums ?d' ! j = a"
    using a by (metis in_set_conv_nth)
  have len: "length (albums ?d') = length (albums d)" by (rule reorder_from_length)
  have "a_id (albums ?d' ! j) = a_id (albums d ! j)"
    using reorder_from_ids [where now = now and found = "albums d" and k = 0 and ids = ids and d = d] j len by (metis nth_map)
  then have idj: "ids ! i = a_id (albums d ! j)" using j ai by simp
  have notlater: "ids ! i \<notin> set (drop (Suc i) ids)"
  proof
    assume "ids ! i \<in> set (drop (Suc i) ids)"
    then obtain k where k: "k < length (drop (Suc i) ids)" "drop (Suc i) ids ! k = ids ! i"
      by (metis in_set_conv_nth)
    then have "ids ! (Suc i + k) = ids ! i" "Suc i + k < length ids" by auto
    with dids i show False by (auto simp: distinct_conv_nth)
  qed
  have mem: "ids ! i \<in> a_id ` set (albums d)" using sub i by (metis nth_mem subsetD)
  have j': "j < length (albums d)" using j len by simp
  show ?thesis
    using reorder_from_position [where now = now and k = 0, OF j' i idj notlater mem] j by simp
qed

text \<open>
  Claim C7, as amended. For a duplicate-free list of ids of existing albums, after
  \<^verbatim>\<open>reorderAlbums\<close> every listed album has its index as position, the listing by
  position (\<^verbatim>\<open>Album.findAll\<close>) shows the listed albums in the order of the list, and when
  the list names every album the listing is exactly the list.
\<close>

theorem reorder_then_custom_order_roundtrip:
  assumes "db s = Some d" and "distinct (map a_id (albums d))"
    and "distinct ids" and "set ids \<subseteq> a_id ` set (albums d)"
  shows "\<exists>as. Album_findAll (snd (reorderAlbums now ids s)) = Inr as \<and>
           (\<forall>i<length ids. \<forall>a\<in>set as. a_id a = ids ! i \<longrightarrow> a_custom_order a = Some (int i)) \<and>
           filter (\<lambda>x. x \<in> set ids) (map a_id as) = ids \<and>
           (set ids = a_id ` set (albums d) \<longrightarrow> map a_id as = ids)"
proof -
  let ?d' = "reorder_from now (albums d) 0 ids d"
  let ?as = "order_by custom_order_le (albums ?d')"
  have dbs: "db (snd (reorderAlbums now ids s)) = Some ?d'"
    using assms(1) by (rule reorderAlbums_db)
  then have fa: "Album_findAll (snd (reorderAlbums now ids s)) = Inr ?as"
    by (simp add: Album_findAll_def getDatabase_def)
  have ids': "map a_id (albums ?d') = map a_id (albums d)" by (rule reorder_from_ids)
  then have dist': "distinct (map a_id (albums ?d'))" using assms(2) by simp
  have img: "a_id ` set (albums ?d') = a_id ` set (albums d)"
    using ids' by (metis set_map)
  have pos: "\<forall>i<length ids. \<forall>a\<in>set (albums ?d'). a_id a = ids ! i \<longrightarrow> a_custom_order a = Some (int i)"
    using reorder_positions_set [OF assms(3) assms(4)] by blast
  have rel: "filter (\<lambda>x. x \<in> set ids) (map a_id ?as) = ids"
    using listed_order [OF dist' pos assms(3)] assms(4) img by simp
  have full: "set ids = a_id ` set (albums d) \<longrightarrow> map a_id ?as = ids"
  proof
    assume eq: "set ids = a_id ` set (albums d)"
    have "set (map a_id ?as) = a_id ` set (albums ?d')" by (simp add: set_order_by)
    then have "filter (\<lambda>x. x \<in> set ids) (map a_id ?as) = map a_id ?as"
      using eq img by (intro filter_all) auto
    with rel show "map a_id ?as = ids" by simp
  qed
  show ?thesis using fa pos rel full by (intro exI [of _ ?as]) (simp add: set_order_by)
qed

theorem reorder_then_custom_order_roundtrip_witness:
  "distinct (map a_id three_albums) \<and> distinct [2, 1, 3 :: nat] \<and>
   set [2, 1, 3] \<subseteq> a_id ` set three_albums \<and>
   (\<exists>as. Album_findAll (snd (reorderAlbums ''2025-11-20T08:00:00.000Z'' [2, 1, 3] (albums_only three_albums))) = Inr as \<and>
      map a_id as = [2, 1, 3])"
proof -
  have h1: "db (albums_only three_albums) = Some (the (db (albums_only three_albums)))"
    by (simp add: albums_only_def)
  have a: "albums (the (db (albums_only three_albums))) = three_albums"
    by (simp add: albums_only_def)
  have h2: "distinct (map a_id three_albums)" by (simp add: albums_only_def three_albums_def album_row_def empty_idb_def)
  have h3: "distinct [2, 1, 3 :: nat]" by simp
  have h4: "set [2, 1, 3] \<subseteq> a_id ` set three_albums" by (simp add: albums_only_def three_albums_def album_row_def empty_idb_def)
  have h5: "set [2, 1, 3] = a_id ` set three_albums" by (auto simp: albums_only_def three_albums_def album_row_def empty_idb_def)
  show ?thesis
    using reorder_then_custom_order_roundtrip [OF h1, unfolded a, OF h2 h3 h4, of "''2025-11-20T08:00:00.000Z''"] h2 h4 h5
    by auto
qed

text \<open>
  Claim C7 as stated fails for a list that leaves an album out and for a list that repeats
  an id: with albums 2 and 3 at positions 1 and 2, \<^verbatim>\<open>reorderAlbums([3])\<close> is followed by
  the listing [3, 2]; with the three albums, \<^verbatim>\<open>reorderAlbums([1, 2, 1])\<close> leaves album 1 at
  position 2 and is followed by a listing that begins with album 2.
\<close>

theorem reorder_roundtrip_counterexample:
  "map_sum id (map a_id)
     (Album_findAll (snd (reorderAlbums ''2025-11-20T08:00:00.000Z'' [3] (albums_only (tl three_albums)))))
     = Inr [3, 2] \<and>
   map_sum id (map a_id)
     (Album_findAll (snd (reorderAlbums ''2025-11-20T08:00:00.000Z'' [1, 2, 1] (albums_only three_albums))))
     = Inr [2, 1, 3] \<and>
   map_sum id (map a_custom_order)
     (Album_findAll (snd (reorderAlbums ''2025-11-20T08:00:00.000Z'' [1, 2, 1] (albums_only three_albums))))
     = Inr [Some 1, Some 2, Some 2]"
  by (simp add: albums_only_def three_albums_def album_row_def empty_idb_def reorderAlbums_def
      getDatabase_def Album_findAll_def updateOrder_def set_order_def order_by_def
      custom_order_le_def)

theorem reorderAlbums_unknown_ids_skipped_witness:
  "reorderAlbums ''2025-11-20T08:00:00.000Z'' [2, 9, 1] (albums_only three_albums) =
     (Inr (), albums_only
        [(album_row 1 ''A'' ''2024-01-01'' 2 ''2025-11-19T10:00:00.000Z'')\<lparr>a_updated_at := ''2025-11-20T08:00:00.000Z''\<rparr>,
         (album_row 2 ''B'' ''2024-01-01'' 0 ''2025-11-19T10:05:00.000Z'')\<lparr>a_updated_at := ''2025-11-20T08:00:00.000Z''\<rparr>,
         album_row 3 ''C'' ''2024-02-01'' 2 ''2025-11-19T10:10:00.000Z''])"
  using reorderAlbums_unknown_ids_skipped [of "albums_only three_albums" "the (db (albums_only three_albums))" "''2025-11-20T08:00:00.000Z''" "[2, 9, 1]"]
  by (simp add: albums_only_def three_albums_def album_row_def empty_idb_def reorderAlbums_def getDatabase_def updateOrder_def set_order_def)

subsection \<open>Listing albums by date\<close>

lemma findAllByDate_sorted:
  "sorted_wrt date_created_desc (order_by date_created_desc as)"
  by (rule sorted_order_by) (auto simp: date_created_desc_def)

text \<open>
  Claim C6. The date listing breaks a tie of dates by creation time, newest first, not by
  name: for the albums A and B of 2024-01-01, A created before B, and C of 2024-02-01 the
  code returns C, B, A where the claim asks for C, A, B.
\<close>

theorem date_listing_ties_by_creation_time:
  "map_sum id (map (a_name \<circ> fst)) (getAllWithPhotoCounts ''date'' (albums_only three_albums)) =
     Inr [''C'', ''B'', ''A'']"
  by (simp add: getAllWithPhotoCounts_def Album_findAllByDate_def getDatabase_def
      albums_only_def three_albums_def album_row_def order_by_def date_created_desc_def)

subsection \<open>Creating an album\<close>

lemma trim_Nil: "trim [] = []" by (simp add: trim_def)

lemma date_format_ok_nonempty: "date_format_ok dt \<Longrightarrow> dt \<noteq> []"
  by (auto simp: date_format_ok_def)

lemma Album_create_ok:
  assumes "db s = Some d"
  shows "\<exists>row d'. Album_create now nm dt s = (Inr (row\<lparr>a_id := 0\<rparr>), s\<lparr>db := Some d'\<rparr>) \<and>
           a_id row = next_rowid (albums_seq d) (map a_id (albums d)) \<and>
           a_name row = nm \<and> a_date row = dt \<and>
           albums d' = albums d @ [row] \<and> photos d' = photos d"
proof -
  let ?row = "\<lparr>a_id = next_rowid (albums_seq d) (map a_id (albums d)), a_name = nm, a_date = dt,
               a_custom_order =
                 Some ((case sql_max (map a_custom_order (albums d)) of None \<Rightarrow> - 1 | Some m \<Rightarrow> m) + 1),
               a_created_at = now, a_updated_at = now\<rparr>"
  let ?d' = "d\<lparr>albums := albums d @ [?row],
               albums_seq := next_rowid (albums_seq d) (map a_id (albums d)),
               last_insert_rowid := 0\<rparr>"
  have "Album_create now nm dt s = (Inr (?row\<lparr>a_id := 0\<rparr>), s\<lparr>db := Some ?d'\<rparr>)"
    using assms by (simp add: Album_create_def getDatabase_def Let_def)
  then show ?thesis
    by (intro exI [of _ ?row] exI [of _ ?d']) simp
qed

text \<open>
  Claim C8, as amended. \<^verbatim>\<open>create\<close> rejects, without touching the stores, a name that is
  empty after trimming and a date that does not have the form YYYY-MM-DD or does not parse;
  an album is created only when the trimmed name is not empty and the date is well formed;
  and with a trimmed name of 1 to 100 characters, a well-formed date (past or future), an
  open database and fewer than 100 albums, the album is created with the trimmed name:
  one row is added to the table, with the next rowid, the trimmed name and the date, and
  the Album object returned is that row with id 0 (the id is read after the export that
  ends \<^verbatim>\<open>execute\<close>).
\<close>

theorem create_validates_name_and_date_format:
  "(trim nm = [] \<longrightarrow>
      create parses now nm dt s =
        (Inl (Error ''Album name is required and must be a non-empty string''), s)) \<and>
   (trim nm \<noteq> [] \<and> \<not> date_format_ok dt \<longrightarrow>
      create parses now nm dt s = (Inl (Error ''Album date must be in YYYY-MM-DD format''), s)) \<and>
   (trim nm \<noteq> [] \<and> date_format_ok dt \<and> \<not> parses dt \<longrightarrow>
      create parses now nm dt s = (Inl (Error ''Invalid date provided''), s)) \<and>
   ((\<exists>a s'. create parses now nm dt s = (Inr a, s')) \<longrightarrow>
      trim nm \<noteq> [] \<and> date_format_ok dt \<and> parses dt) \<and>
   (1 \<le> length (trim nm) \<and> length (trim nm) \<le> 100 \<and> date_format_ok dt \<and> parses dt \<and>
    db s = Some d \<and> length (albums d) < 100 \<longrightarrow>
      (\<exists>row d'. create parses now nm dt s = (Inr (row\<lparr>a_id := 0\<rparr>), s\<lparr>db := Some d'\<rparr>) \<and>
         a_id row = next_rowid (albums_seq d) (map a_id (albums d)) \<and>
         a_name row = trim nm \<and> a_date row = dt \<and> albums d' = albums d @ [row]))"
proof (intro conjI impI)
  assume "trim nm = []"
  then show "create parses now nm dt s =
        (Inl (Error ''Album name is required and must be a non-empty string''), s)"
    by (simp add: create_def)
next
  assume "trim nm \<noteq> [] \<and> \<not> date_format_ok dt"
  then show "create parses now nm dt s = (Inl (Error ''Album date must be in YYYY-MM-DD format''), s)"
    by (auto simp: create_def trim_Nil)
next
  assume "trim nm \<noteq> [] \<and> date_format_ok dt \<and> \<not> parses dt"
  then show "create parses now nm dt s = (Inl (Error ''Invalid date provided''), s)"
    by (auto simp: create_def trim_Nil dest: date_format_ok_nonempty)
next
  assume "\<exists>a s'. create parses now nm dt s = (Inr a, s')"
  then show "trim nm \<noteq> []" "date_format_ok dt" "parses dt"
    by (auto simp: create_def split: if_splits)
next
  assume h: "1 \<le> length (trim nm) \<and> length (trim nm) \<le> 100 \<and> date_format_ok dt \<and> parses dt \<and>
    db s = Some d \<and> length (albums d) < 100"
  then have nm: "nm \<noteq> []" "trim nm \<noteq> []" "dt \<noteq> []"
    by (auto simp: trim_Nil dest: date_format_ok_nonempty)
  have run: "create parses now nm dt s = Album_create now (trim nm) dt s"
    using h nm by (simp add: create_def Album_findAll_def getDatabase_def length_order_by)
  from h have "db s = Some d" by simp
  from Album_create_ok [OF this, of now "trim nm" dt] run
  show "\<exists>row d'. create parses now nm dt s = (Inr (row\<lparr>a_id := 0\<rparr>), s\<lparr>db := Some d'\<rparr>) \<and>
         a_id row = next_rowid (albums_seq d) (map a_id (albums d)) \<and>
         a_name row = trim nm \<and> a_date row = dt \<and> albums d' = albums d @ [row]"
    by (simp only: run) blast
qed

theorem create_validates_name_and_date_format_witness:
  "create iso_date_parses ''2025-11-19T10:00:00.000Z'' ''   '' ''2024-05-01'' (albums_only []) =
     (Inl (Error ''Album name is required and must be a non-empty string''), albums_only []) \<and>
   create iso_date_parses ''2025-11-19T10:00:00.000Z'' ''Trip'' ''2024-5-1'' (albums_only []) =
     (Inl (Error ''Album date must be in YYYY-MM-DD format''), albums_only []) \<and>
   create iso_date_parses ''2025-11-19T10:00:00.000Z'' ''Trip'' ''2024-13-01'' (albums_only []) =
     (Inl (Error ''Invalid date provided''), albums_only []) \<and>
   (\<exists>row d'. create iso_date_parses ''2025-11-19T10:00:00.000Z'' '' Trip '' ''2024-05-01'' (albums_only []) =
              (Inr (row\<lparr>a_id := 0\<rparr>), (albums_only [])\<lparr>db := Some d'\<rparr>) \<and>
              a_id row = 1 \<and> a_name row = ''Trip'' \<and> a_date row = ''2024-05-01'' \<and> albums d' = [row])"
proof -
  have t1: "trim ''   '' = []" and t2: "trim ''Trip'' = ''Trip''" and t3: "trim '' Trip '' = ''Trip''"
    by (simp_all add: trim_def is_ws_def)
  have f1: "\<not> date_format_ok ''2024-5-1''" and f2: "date_format_ok ''2024-13-01''"
    and f3: "date_format_ok ''2024-05-01''"
    by (simp_all add: date_format_ok_def is_digit_def)
  have p2: "\<not> iso_date_parses ''2024-13-01''" and p3: "iso_date_parses ''2024-05-01''"
    by (simp_all add: iso_date_parses_def iso_date_time_def f2 f3 digits_value_def
        days_in_month_def)
  have d: "db (albums_only []) = Some (the (db (albums_only [])))" 
    and a: "albums (the (db (albums_only []))) = []"
    and n: "next_rowid (albums_seq (the (db (albums_only [])))) [] = 1"
    by (simp_all add: albums_only_def next_rowid_def)
  note T = create_validates_name_and_date_format [where parses = iso_date_parses
      and now = "''2025-11-19T10:00:00.000Z''" and s = "albums_only []" and d = "the (db (albums_only []))"]
  show ?thesis
    using T [of "''   ''" "''2024-05-01''"] T [of "''Trip''" "''2024-5-1''"]
      T [of "''Trip''" "''2024-13-01''"] T [of "'' Trip ''" "''2024-05-01''"]
    by (simp add: t1 t2 t3 f1 f2 f3 p2 p3 d [symmetric] a n)
qed

text \<open>
  Claim C8 as stated fails: the service-level \<^verbatim>\<open>create\<close> has no check against future
  dates. On 2025-11-19 the date 2999-12-31 is in the future, the form validator
  \<^verbatim>\<open>validateAlbumForm\<close> refuses it, and \<^verbatim>\<open>create\<close> stores the album: the table
  gets the row with rowid 1, the caller gets the Album object with id 0.
\<close>

theorem create_future_date_counterexample:
  "isFutureDate iso_date_time 1763510400000 ''2999-12-31'' \<and>
   \<not> fst (validateAlbumForm iso_date_time 1763510400000 ''Trip'' ''2999-12-31'') \<and>
   create iso_date_parses ''2025-11-19T10:00:00.000Z'' ''Trip'' ''2999-12-31'' (albums_only []) =
     (Inr (album_row 0 ''Trip'' ''2999-12-31'' 0 ''2025-11-19T10:00:00.000Z''),
      \<lparr>db = Some \<lparr>albums = [album_row 1 ''Trip'' ''2999-12-31'' 0 ''2025-11-19T10:00:00.000Z''],
                   photos = [], album_order = [], albums_seq = 1, photos_seq = 0,
                   last_insert_rowid = 0\<rparr>,
       idb = empty_idb\<rparr>)"
proof -
  have t: "trim ''Trip'' = ''Trip''" by (simp add: trim_def is_ws_def)
  have f: "date_format_ok ''2999-12-31''" by (simp add: date_format_ok_def is_digit_def)
  have p: "iso_date_time ''2999-12-31'' = Some 32503593600000"
    by (simp add: iso_date_time_def f digits_value_def days_in_month_def days_from_civil_def)
  show ?thesis
    by (simp add: isFutureDate_def validateAlbumForm_def isValidDate_def create_def t f p
        Album_findAll_def getDatabase_def albums_only_def order_by_def Album_create_def
        next_rowid_def album_row_def empty_idb_def Let_def iso_date_parses_def)
qed

subsection \<open>The ingestion pipeline\<close>

text \<open>
  What \<^verbatim>\<open>add\<close> returns at each of its exits when nothing else touches the stores while
  it runs: the stages entered, the error thrown and the stores left behind.
\<close>

lemma add_run_format:
  "f_type file \<notin> set validFormats \<Longrightarrow>
   add_run digest now ts albumId file s =
     ([ValidateFormat],
      Inl (Error (''Unsupported file format: '' @ f_type file @
                  ''. Supported formats: JPEG, PNG, WebP, HEIC'')), s)"
  by (simp add: add_run_def add_with_def)

lemma add_run_no_database:
  "f_type file \<in> set validFormats \<Longrightarrow> db s = None \<Longrightarrow>
   add_run digest now ts albumId file s =
     ([ValidateFormat, CheckCapacity],
      Inl (Error ''Database not initialized. Call initDatabase() first.''), s)"
  by (simp add: add_run_def add_with_def Photo_countByAlbum_def getDatabase_def)

lemma add_run_capacity:
  "f_type file \<in> set validFormats \<Longrightarrow> db s = Some d \<Longrightarrow>
   500 \<le> length (filter (\<lambda>p. p_album_id p = albumId) (photos d)) \<Longrightarrow>
   add_run digest now ts albumId file s =
     ([ValidateFormat, CheckCapacity],
      Inl (Error ''Album has reached maximum photo limit (500)''), s)"
  by (simp add: add_run_def add_with_def Photo_countByAlbum_def getDatabase_def)

lemma add_run_unreadable:
  "f_type file \<in> set validFormats \<Longrightarrow> db s = Some d \<Longrightarrow>
   length (filter (\<lambda>p. p_album_id p = albumId) (photos d)) < 500 \<Longrightarrow>
   \<not> f_readable file \<Longrightarrow>
   add_run digest now ts albumId file s =
     ([ValidateFormat, CheckCapacity, ComputeFingerprint],
      Inl (DOMException ''NotReadableError''), s)"
  by (simp add: add_run_def add_with_def Photo_countByAlbum_def getDatabase_def
      calculateFileHash_def)

lemma add_run_duplicate:
  "f_type file \<in> set validFormats \<Longrightarrow> db s = Some d \<Longrightarrow>
   length (filter (\<lambda>p. p_album_id p = albumId) (photos d)) < 500 \<Longrightarrow>
   f_readable file \<Longrightarrow>
   \<exists>p \<in> set (photos d). p_album_id p = albumId \<and> p_file_hash p = digest (f_bytes file) \<Longrightarrow>
   add_run digest now ts albumId file s =
     ([ValidateFormat, CheckCapacity, ComputeFingerprint, DuplicateLookup],
      Inl (Error (''Duplicate photo detected: '' @ f_name file @
                  '' already exists in this album'')), s)"
proof -
  assume a: "f_type file \<in> set validFormats" "db s = Some d"
    "length (filter (\<lambda>p. p_album_id p = albumId) (photos d)) < 500" "f_readable file"
    "\<exists>p \<in> set (photos d). p_album_id p = albumId \<and> p_file_hash p = digest (f_bytes file)"
  then have "find (\<lambda>p. p_album_id p = albumId \<and> p_file_hash p = digest (f_bytes file)) (photos d) \<noteq> None"
    by (auto simp: find_None_iff)
  then obtain e where "find (\<lambda>p. p_album_id p = albumId \<and> p_file_hash p = digest (f_bytes file)) (photos d) = Some e"
    by blast
  with a show ?thesis
    by (simp add: add_run_def add_with_def Photo_countByAlbum_def getDatabase_def
        calculateFileHash_def Photo_findByAlbumAndHash_def)
qed

lemma add_run_undecodable:
  "f_type file \<in> set validFormats \<Longrightarrow> db s = Some d \<Longrightarrow>
   length (filter (\<lambda>p. p_album_id p = albumId) (photos d)) < 500 \<Longrightarrow>
   f_readable file \<Longrightarrow>
   \<not> (\<exists>p \<in> set (photos d). p_album_id p = albumId \<and> p_file_hash p = digest (f_bytes file)) \<Longrightarrow>
   f_image file = None \<Longrightarrow>
   add_run digest now ts albumId file s =
     ([ValidateFormat, CheckCapacity, ComputeFingerprint, DuplicateLookup, ExtractDimensions],
      Inl (Error ''Failed to load image''), s)"
proof -
  assume a: "f_type file \<in> set validFormats" "db s = Some d"
    "length (filter (\<lambda>p. p_album_id p = albumId) (photos d)) < 500" "f_readable file"
    "\<not> (\<exists>p \<in> set (photos d). p_album_id p = albumId \<and> p_file_hash p = digest (f_bytes file))"
    "f_image file = None"
  then have "find (\<lambda>p. p_album_id p = albumId \<and> p_file_hash p = digest (f_bytes file)) (photos d) = None"
    by (simp add: find_None_iff)
  with a show ?thesis
    by (simp add: add_run_def add_with_def Photo_countByAlbum_def getDatabase_def
        calculateFileHash_def Photo_findByAlbumAndHash_def getImageDimensions_def)
qed

lemma add_run_no_thumbnail:
  "f_type file \<in> set validFormats \<Longrightarrow> db s = Some d \<Longrightarrow>
   length (filter (\<lambda>p. p_album_id p = albumId) (photos d)) < 500 \<Longrightarrow>
   f_readable file \<Longrightarrow>
   \<not> (\<exists>p \<in> set (photos d). p_album_id p = albumId \<and> p_file_hash p = digest (f_bytes file)) \<Longrightarrow>
   f_image file = Some wh \<Longrightarrow> \<not> f_thumbable file \<Longrightarrow>
   add_run digest now ts albumId file s =
     ([ValidateFormat, CheckCapacity, ComputeFingerprint, DuplicateLookup, ExtractDimensions,
       DeriveThumbnail],
      Inl (Error ''Failed to read file''), s)"
proof -
  assume a: "f_type file \<in> set validFormats" "db s = Some d"
    "length (filter (\<lambda>p. p_album_id p = albumId) (photos d)) < 500" "f_readable file"
    "\<not> (\<exists>p \<in> set (photos d). p_album_id p = albumId \<and> p_file_hash p = digest (f_bytes file))"
    "f_image file = Some wh" "\<not> f_thumbable file"
  then have "find (\<lambda>p. p_album_id p = albumId \<and> p_file_hash p = digest (f_bytes file)) (photos d) = None"
    by (simp add: find_None_iff)
  with a show ?thesis
    by (cases wh)
       (simp add: add_run_def add_with_def Photo_countByAlbum_def getDatabase_def
        calculateFileHash_def Photo_findByAlbumAndHash_def getImageDimensions_def
        generateThumbnail_def)
qed

text \<open>
  When every check passes, the row is inserted with the next rowid and the blob pair is
  put under key 0; the Photo object returned is the row with id 0. A refused put leaves
  the row behind.
\<close>

lemma add_run_writes:
  assumes "f_type file \<in> set validFormats" "db s = Some d"
    "length (filter (\<lambda>p. p_album_id p = albumId) (photos d)) < 500" "f_readable file"
    "\<not> (\<exists>p \<in> set (photos d). p_album_id p = albumId \<and> p_file_hash p = digest (f_bytes file))"
    "f_image file = Some wh" "f_thumbable file"
    "generateThumbnail file = Inr th"
  shows "add_run digest now ts albumId file s =
     (pipeline,
      (case storePhoto ts 0 albumId file th (digest (f_bytes file)) (idb s) of
         (Inl e, st') \<Rightarrow>
           (Inl e, s\<lparr>db := Some (with_row (new_row digest now albumId file d) d), idb := st'\<rparr>)
       | (Inr u, st') \<Rightarrow>
           (Inr ((new_row digest now albumId file d)\<lparr>p_id := 0\<rparr>),
            s\<lparr>db := Some (with_row (new_row digest now albumId file d) d), idb := st'\<rparr>)))"
proof -
  have f: "find (\<lambda>p. p_album_id p = albumId \<and> p_file_hash p = digest (f_bytes file)) (photos d) = None"
    using assms(5) by (simp add: find_None_iff)
  obtain w h where wh: "wh = (w, h)" by (cases wh)
  show ?thesis
    using assms f wh
    by (simp add: add_run_def add_with_def Photo_countByAlbum_def getDatabase_def
        calculateFileHash_def Photo_findByAlbumAndHash_def getImageDimensions_def
        Photo_create_def Let_def new_row_def with_row_def pipeline_def
        split: prod.splits sum.splits)
qed

lemma generateThumbnail_ok:
  "f_thumbable file \<Longrightarrow> f_image file = Some wh \<Longrightarrow> \<exists>th. generateThumbnail file = Inr th"
  by (cases wh) (simp add: generateThumbnail_def Let_def)

lemma new_row_id: "0 < p_id (new_row digest now albumId file d)"
  by (simp add: new_row_def next_rowid_def)

text \<open>Every call of \<^verbatim>\<open>add\<close> ends in one of these ways.\<close>

lemma add_run_table:
  assumes run: "add_run digest now ts albumId file s = (stages, r, s')"
  shows
    "(f_type file \<notin> set validFormats \<and> stages = [ValidateFormat] \<and>
        r = Inl (Error (''Unsupported file format: '' @ f_type file @
                        ''. Supported formats: JPEG, PNG, WebP, HEIC'')) \<and> s' = s) \<or>
     (f_type file \<in> set validFormats \<and> db s = None \<and>
        stages = [ValidateFormat, CheckCapacity] \<and>
        r = Inl (Error ''Database not initialized. Call initDatabase() first.'') \<and> s' = s) \<or>
     (f_type file \<in> set validFormats \<and>
      (\<exists>d. db s = Some d \<and>
         (500 \<le> length (filter (\<lambda>p. p_album_id p = albumId) (photos d)) \<and>
            stages = [ValidateFormat, CheckCapacity] \<and>
            r = Inl (Error ''Album has reached maximum photo limit (500)'') \<and> s' = s \<or>
          length (filter (\<lambda>p. p_album_id p = albumId) (photos d)) < 500 \<and>
          (\<not> f_readable file \<and>
             stages = [ValidateFormat, CheckCapacity, ComputeFingerprint] \<and>
             r = Inl (DOMException ''NotReadableError'') \<and> s' = s \<or>
           f_readable file \<and>
           ((\<exists>p \<in> set (photos d). p_album_id p = albumId \<and>
                 p_file_hash p = digest (f_bytes file)) \<and>
              stages = [ValidateFormat, CheckCapacity, ComputeFingerprint, DuplicateLookup] \<and>
              r = Inl (Error (''Duplicate photo detected: '' @ f_name file @
                              '' already exists in this album'')) \<and> s' = s \<or>
            \<not> (\<exists>p \<in> set (photos d). p_album_id p = albumId \<and>
                 p_file_hash p = digest (f_bytes file)) \<and>
            (f_image file = None \<and>
               stages = [ValidateFormat, CheckCapacity, ComputeFingerprint, DuplicateLookup,
                         ExtractDimensions] \<and>
               r = Inl (Error ''Failed to load image'') \<and> s' = s \<or>
             f_image file \<noteq> None \<and> \<not> f_thumbable file \<and>
               stages = [ValidateFormat, CheckCapacity, ComputeFingerprint, DuplicateLookup,
                         ExtractDimensions, DeriveThumbnail] \<and>
               r = Inl (Error ''Failed to read file'') \<and> s' = s \<or>
             f_image file \<noteq> None \<and> f_thumbable file \<and> stages = pipeline \<and>
               (\<exists>th st'. generateThumbnail file = Inr th \<and>
                  s' = s\<lparr>db := Some (with_row (new_row digest now albumId file d) d),
                          idb := st'\<rparr> \<and>
                  ((\<exists>e. storePhoto ts 0 albumId file th (digest (f_bytes file)) (idb s) =
                          (Inl e, st') \<and> r = Inl e) \<or>
                   storePhoto ts 0 albumId file th (digest (f_bytes file)) (idb s) =
                     (Inr (), st') \<and>
                   r = Inr ((new_row digest now albumId file d)\<lparr>p_id := 0\<rparr>)))))))))"
proof (cases "f_type file \<in> set validFormats")
  case False
  have "stages = [ValidateFormat]" "s' = s"
    "r = Inl (Error (''Unsupported file format: '' @ f_type file @
                        ''. Supported formats: JPEG, PNG, WebP, HEIC''))"
    using run add_run_format [where digest = digest and now = now and ts = ts and albumId = albumId and s = s, OF False]
    by simp_all
  with False show ?thesis by simp
next
  case fmt: True
  show ?thesis
  proof (cases "db s")
    case None
    have "stages = [ValidateFormat, CheckCapacity]" "s' = s"
      "r = Inl (Error ''Database not initialized. Call initDatabase() first.'')"
      using run add_run_no_database [where digest = digest and now = now and ts = ts and albumId = albumId, OF fmt None]
      by simp_all
    with fmt None show ?thesis by simp
  next
    case (Some d)
    show ?thesis
    proof (cases "length (filter (\<lambda>p. p_album_id p = albumId) (photos d)) < 500")
      case False
      have full: "500 \<le> length (filter (\<lambda>p. p_album_id p = albumId) (photos d))"
        using False by simp
      then have "stages = [ValidateFormat, CheckCapacity]" "s' = s"
        "r = Inl (Error ''Album has reached maximum photo limit (500)'')"
        using run add_run_capacity [where digest = digest and now = now and ts = ts and albumId = albumId, OF fmt Some]
        by simp_all
      with fmt Some full show ?thesis by simp
    next
      case room: True
      show ?thesis
      proof (cases "f_readable file")
        case False
        have "stages = [ValidateFormat, CheckCapacity, ComputeFingerprint]" "s' = s"
          "r = Inl (DOMException ''NotReadableError'')"
          using run add_run_unreadable [where digest = digest and now = now and ts = ts, OF fmt Some room False]
          by simp_all
        with fmt Some room False show ?thesis by simp
      next
        case rd: True
        show ?thesis
        proof (cases "\<exists>p \<in> set (photos d). p_album_id p = albumId \<and> p_file_hash p = digest (f_bytes file)")
          case True
          have "stages = [ValidateFormat, CheckCapacity, ComputeFingerprint, DuplicateLookup]"
            "s' = s"
            "r = Inl (Error (''Duplicate photo detected: '' @ f_name file @
                              '' already exists in this album''))"
            using run add_run_duplicate [where digest = digest and now = now and ts = ts, OF fmt Some room rd True]
            by simp_all
          with fmt Some room rd True show ?thesis by simp
        next
          case new: False
          show ?thesis
          proof (cases "f_image file")
            case None
            have "stages = [ValidateFormat, CheckCapacity, ComputeFingerprint, DuplicateLookup,
                  ExtractDimensions]" "s' = s" "r = Inl (Error ''Failed to load image'')"
              using run add_run_undecodable [where digest = digest and now = now and ts = ts, OF fmt Some room rd new None]
              by simp_all
            with fmt Some room rd new None show ?thesis by simp
          next
            case img: (Some wh)
            show ?thesis
            proof (cases "f_thumbable file")
              case False
              have "stages = [ValidateFormat, CheckCapacity, ComputeFingerprint, DuplicateLookup,
                  ExtractDimensions, DeriveThumbnail]" "s' = s" "r = Inl (Error ''Failed to read file'')"
                using run add_run_no_thumbnail [where digest = digest and now = now and ts = ts, OF fmt Some room rd new img False]
                by simp_all
              with fmt Some room rd new img False show ?thesis by simp
            next
              case th: True
              obtain t where t: "generateThumbnail file = Inr t"
                using generateThumbnail_ok [OF th img] by blast
              let ?row = "new_row digest now albumId file d"
              obtain res st' where sp:
                "storePhoto ts 0 albumId file t (digest (f_bytes file)) (idb s) = (res, st')"
                by (cases "storePhoto ts 0 albumId file t (digest (f_bytes file)) (idb s)")
              have w: "stages = pipeline" "s' = s\<lparr>db := Some (with_row ?row d), idb := st'\<rparr>"
                "(\<exists>e. res = Inl e \<and> r = Inl e) \<or> (res = Inr () \<and> r = Inr (?row\<lparr>p_id := 0\<rparr>))"
                using run sp add_run_writes [where digest = digest and now = now and ts = ts, OF fmt Some room rd new img th t]
                by (cases res; simp)+
              have "\<exists>th st'. generateThumbnail file = Inr th \<and>
                  s' = s\<lparr>db := Some (with_row ?row d), idb := st'\<rparr> \<and>
                  ((\<exists>e. storePhoto ts 0 albumId file th (digest (f_bytes file)) (idb s) =
                          (Inl e, st') \<and> r = Inl e) \<or>
                   storePhoto ts 0 albumId file th (digest (f_bytes file)) (idb s) =
                     (Inr (), st') \<and>
                   r = Inr (?row\<lparr>p_id := 0\<rparr>))"
                using t sp w by (intro exI [of _ t] exI [of _ st']) auto
              with fmt Some room rd new img th w(1) show ?thesis by simp
            qed
          qed
        qed
      qed
    qed
  qed
qed

text \<open>
  Uploads of one batch overlap. When another upload inserts the same album and
  fingerprint after this one has done its duplicate lookup, this one gets as far as the
  INSERT, which the unique index refuses: the error is SQLite's, not the duplicate error
  of \<^verbatim>\<open>add\<close>.
\<close>

lemma add_with_insert_refused:
  assumes "f_type file \<in> set validFormats" "db s = Some d"
    "length (filter (\<lambda>p. p_album_id p = albumId) (photos d)) < 500" "f_readable file"
    "db (others1 s) = Some d1"
    "\<not> (\<exists>p \<in> set (photos d1). p_album_id p = albumId \<and> p_file_hash p = digest (f_bytes file))"
    "f_image file = Some wh" "f_thumbable file"
    "db (others2 (others1 s)) = Some d2"
    "\<exists>p \<in> set (photos d2). p_album_id p = albumId \<and> p_file_hash p = digest (f_bytes file)"
  shows "add_with digest now ts albumId file others1 others2 others3 s =
     ([ValidateFormat, CheckCapacity, ComputeFingerprint, DuplicateLookup, ExtractDimensions,
       DeriveThumbnail, WriteMetadata],
      Inl (Error ''UNIQUE constraint failed: photos.album_id, photos.file_hash''),
      others2 (others1 s))"
proof -
  have f: "find (\<lambda>p. p_album_id p = albumId \<and> p_file_hash p = digest (f_bytes file)) (photos d1) = None"
    using assms(6) by (simp add: find_None_iff)
  obtain w h where wh: "wh = (w, h)" by (cases wh)
  obtain th where th: "generateThumbnail file = Inr th"
    using generateThumbnail_ok [OF assms(8) assms(7)] by blast
  show ?thesis
    using assms(1-5,7-10) f wh th
    by (simp add: add_with_def Photo_countByAlbum_def getDatabase_def
        calculateFileHash_def Photo_findByAlbumAndHash_def getImageDimensions_def
        Photo_create_def Let_def)
qed

lemmas add_defs = add_def add_run_def add_with_def Photo_countByAlbum_def getDatabase_def
        calculateFileHash_def Photo_findByAlbumAndHash_def getImageDimensions_def
        generateThumbnail_def Photo_create_def storePhoto_def request_def Let_def
        validFormats_def next_rowid_def format_of_def THUMBNAIL_SIZE_def hex_of_bytes_def
        hex_digit_def

lemmas example_defs = albums_only_def three_albums_def album_row_def empty_idb_def beach_jpg_def
        copy_jpg_def dunes_png_def after_beach_def beach_row_def beach_blob_def dunes_row_def
        dunes_blob_def

lemma first_upload_example:
  "add hex_of_bytes ''2025-11-20T09:00:00.000Z'' 1763629200000 1 beach_jpg
      (albums_only three_albums) = (Inr (beach_row\<lparr>p_id := 0\<rparr>), after_beach)"
  by (simp add: add_defs example_defs)

text \<open>
  Two uploads of the same bytes start on the empty album 1; \<^verbatim>\<open>beach.jpg\<close> is written
  while \<^verbatim>\<open>copy.jpg\<close> waits for its thumbnail.
\<close>

lemma overlapping_uploads_example:
  "add_with hex_of_bytes ''2025-11-20T09:00:01.000Z'' 1763629201000 1 copy_jpg id
      (\<lambda>s. snd (add hex_of_bytes ''2025-11-20T09:00:00.000Z'' 1763629200000 1 beach_jpg s)) id
      (albums_only three_albums) =
     ([ValidateFormat, CheckCapacity, ComputeFingerprint, DuplicateLookup, ExtractDimensions,
       DeriveThumbnail, WriteMetadata],
      Inl (Error ''UNIQUE constraint failed: photos.album_id, photos.file_hash''),
      after_beach)"
  by (simp add: add_defs example_defs)

text \<open>
  Claim C3. The code at the failing input: \<^verbatim>\<open>beach.jpg\<close> and then \<^verbatim>\<open>dunes.png\<close> go
  into album 1 of a library without photos. Each ingestion passes the eight stages in
  order and inserts its row before it stores the blob pair, but it does not store the
  blob pair under the identifier of the row. The rows get the rowids 1 and 2; both blob
  pairs are put under key 0, the value \<^verbatim>\<open>last_insert_rowid()\<close> has after the export,
  and both Photo objects returned have id 0. The second put replaces the first record:
  after the two uploads the blob store holds one record, and looking up the blob pair of
  either row by its id finds nothing.
\<close>

theorem add_stores_blob_pair_under_key_zero:
  "add_run hex_of_bytes ''2025-11-20T09:00:00.000Z'' 1763629200000 1 beach_jpg
      (albums_only three_albums) =
     (pipeline, Inr (beach_row\<lparr>p_id := 0\<rparr>), after_beach) \<and>
   add_run hex_of_bytes ''2025-11-20T09:02:00.000Z'' 1763629320000 1 dunes_png after_beach =
     (pipeline, Inr (dunes_row\<lparr>p_id := 0\<rparr>),
      \<lparr>db = Some \<lparr>albums = three_albums, photos = [beach_row, dunes_row], album_order = [],
                   albums_seq = 3, photos_seq = 2, last_insert_rowid = 0\<rparr>,
       idb = \<lparr>records = [dunes_blob\<lparr>b_id := 0\<rparr>], faults = []\<rparr>\<rparr>) \<and>
   map p_id [beach_row, dunes_row] = [1, 2] \<and>
   fst (getPhoto 1 \<lparr>records = [dunes_blob\<lparr>b_id := 0\<rparr>], faults = []\<rparr>) = Inr None \<and>
   fst (getPhoto 2 \<lparr>records = [dunes_blob\<lparr>b_id := 0\<rparr>], faults = []\<rparr>) = Inr None"
  by (simp add: add_defs example_defs pipeline_def getPhoto_def)

subsection \<open>Uploading the same bytes twice\<close>

lemma storePhoto_one_record:
  assumes "storePhoto ts i a f th h st = (Inr (), st')"
  shows "filter (\<lambda>b. b_fileHash b = h) (records st') =
           [\<lparr>b_id = i, b_albumId = a, b_photo = f, b_thumbnail = th, b_fileHash = h,
             b_timestamp = ts\<rparr>]"
proof -
  obtain fl st0 where rq: "request st = (fl, st0)" by (cases "request st")
  have recs: "records st0 = records st" using rq by (auto simp: request_def split: list.splits)
  from assms rq have nofault: "\<not> fl"
    and ok: "\<not> (\<exists>r \<in> set (records st0). b_fileHash r = h \<and> b_id r \<noteq> i)"
    and st': "records st' = filter (\<lambda>r. b_id r \<noteq> i) (records st0) @
        [\<lparr>b_id = i, b_albumId = a, b_photo = f, b_thumbnail = th, b_fileHash = h, b_timestamp = ts\<rparr>]"
    by (auto simp: storePhoto_def split: if_splits bool.splits)
  have "filter (\<lambda>b. b_fileHash b = h) (filter (\<lambda>r. b_id r \<noteq> i) (records st0)) = []"
    using ok by (auto simp: filter_empty_conv)
  then show ?thesis using st' by simp
qed

lemma request_no_fault:
  "True \<notin> set (faults st) \<Longrightarrow>
   \<exists>st'. request st = (False, st') \<and> records st' = records st \<and> True \<notin> set (faults st')"
  by (auto simp: request_def split: list.splits)

lemma storePhoto_ok:
  assumes "True \<notin> set (faults st)"
    and "\<forall>r \<in> set (records st). b_fileHash r = h \<longrightarrow> b_id r = i"
  shows "\<exists>st'. storePhoto ts i a f th h st = (Inr (), st') \<and>
           records st' = filter (\<lambda>r. b_id r \<noteq> i) (records st) @
             [\<lparr>b_id = i, b_albumId = a, b_photo = f, b_thumbnail = th, b_fileHash = h,
               b_timestamp = ts\<rparr>] \<and>
           True \<notin> set (faults st')"
proof -
  from request_no_fault [OF assms(1)] obtain st0 where rq: "request st = (False, st0)"
    and recs: "records st0 = records st" and nf: "True \<notin> set (faults st0)"
    by blast
  have "\<not> (\<exists>r \<in> set (records st0). b_fileHash r = h \<and> b_id r \<noteq> i)"
    using assms(2) recs by auto
  then show ?thesis using rq recs nf by (simp add: storePhoto_def)
qed

text \<open>A call of \<^verbatim>\<open>add\<close> that resolves, read backwards and forwards.\<close>

lemma add_success:
  assumes "add digest now ts albumId file s = (Inr p, s1)"
  shows "\<exists>d th st'. db s = Some d \<and> f_type file \<in> set validFormats \<and>
           \<not> (\<exists>q \<in> set (photos d). p_album_id q = albumId \<and> p_file_hash q = digest (f_bytes file)) \<and>
           p = (new_row digest now albumId file d)\<lparr>p_id := 0\<rparr> \<and>
           storePhoto ts 0 albumId file th (digest (f_bytes file)) (idb s) = (Inr (), st') \<and>
           s1 = s\<lparr>db := Some (with_row (new_row digest now albumId file d) d), idb := st'\<rparr>"
proof -
  obtain stages where run: "add_run digest now ts albumId file s = (stages, Inr p, s1)"
    using assms by (cases "add_run digest now ts albumId file s") (auto simp: add_def)
  from add_run_table [OF run] show ?thesis by auto
qed

lemma add_ok:
  assumes "f_type file \<in> set validFormats" "db s = Some d"
    "length (filter (\<lambda>p. p_album_id p = albumId) (photos d)) < 500" "f_readable file"
    "\<not> (\<exists>p \<in> set (photos d). p_album_id p = albumId \<and> p_file_hash p = digest (f_bytes file))"
    "f_image file = Some wh" "f_thumbable file"
    "True \<notin> set (faults (idb s))"
    "\<forall>r \<in> set (records (idb s)). b_fileHash r = digest (f_bytes file) \<longrightarrow> b_id r = 0"
  shows "\<exists>th st'.
      add digest now ts albumId file s =
        (Inr ((new_row digest now albumId file d)\<lparr>p_id := 0\<rparr>),
         s\<lparr>db := Some (with_row (new_row digest now albumId file d) d), idb := st'\<rparr>) \<and>
      generateThumbnail file = Inr th \<and>
      records st' = filter (\<lambda>r. b_id r \<noteq> 0) (records (idb s)) @
        [\<lparr>b_id = 0, b_albumId = albumId, b_photo = file, b_thumbnail = th,
          b_fileHash = digest (f_bytes file), b_timestamp = ts\<rparr>] \<and>
      True \<notin> set (faults st')"
proof -
  obtain th where th: "generateThumbnail file = Inr th"
    using generateThumbnail_ok [OF assms(7) assms(6)] by blast
  from storePhoto_ok [OF assms(8) assms(9), of ts albumId "file" th]
  obtain st' where sp: "storePhoto ts 0 albumId file th (digest (f_bytes file)) (idb s) = (Inr (), st')"
    and recs: "records st' = filter (\<lambda>r. b_id r \<noteq> 0) (records (idb s)) @
        [\<lparr>b_id = 0, b_albumId = albumId, b_photo = file, b_thumbnail = th,
          b_fileHash = digest (f_bytes file), b_timestamp = ts\<rparr>]"
    and nf: "True \<notin> set (faults st')"
    by blast
  have "add digest now ts albumId file s =
        (Inr ((new_row digest now albumId file d)\<lparr>p_id := 0\<rparr>),
         s\<lparr>db := Some (with_row (new_row digest now albumId file d) d), idb := st'\<rparr>)"
    using add_run_writes [where digest = digest and now = now and ts = ts,
        OF assms(1) assms(2) assms(3) assms(4) assms(5) assms(6) assms(7) th] sp
    by (simp add: add_def)
  then show ?thesis using th recs nf by blast
qed

text \<open>
  \<^verbatim>\<open>Photo.create\<close> is the only caller of \<^verbatim>\<open>storePhoto\<close>, so every record of the blob
  store has key 0: \<^verbatim>\<open>add\<close> keeps it so.
\<close>

lemma storePhoto_keys:
  assumes "storePhoto ts i a f th h st = (r, st')" and "\<forall>b \<in> set (records st). b_id b = i"
  shows "\<forall>b \<in> set (records st'). b_id b = i"
  using assms
  by (auto simp: storePhoto_def request_def split: list.splits bool.splits if_splits)

lemma add_keeps_key_zero:
  assumes "add digest now ts albumId file s = (r, s')"
    and "\<forall>b \<in> set (records (idb s)). b_id b = 0"
  shows "\<forall>b \<in> set (records (idb s')). b_id b = 0"
proof -
  obtain stages where run: "add_run digest now ts albumId file s = (stages, r, s')"
    using assms(1) by (cases "add_run digest now ts albumId file s") (auto simp: add_def)
  from add_run_table [OF run]
  consider "s' = s"
    | th st' res where "storePhoto ts 0 albumId file th (digest (f_bytes file)) (idb s) = (res, st')"
        "idb s' = st'"
    by (elim disjE conjE exE) simp_all
  then show ?thesis
  proof cases
    case 1
    then show ?thesis using assms(2) by simp
  next
    case 2
    then show ?thesis using storePhoto_keys [OF 2(1) assms(2)] by simp
  qed
qed

text \<open>
  Claim C1. Two valid files with the same bytes, uploaded one after the other to two
  different albums that have room and do not hold these bytes yet, with no failing
  IndexedDB request: both calls of \<^verbatim>\<open>add\<close> resolve. Each inserts its row, so the table
  ends with a row for the first album and a row for the second, with the same
  fingerprint; and the blob pair of the second upload is in the blob store, under its
  album id and fingerprint. (It is the only record with this fingerprint: both uploads put
  under key 0, and the second put replaces the record of the first. The last hypothesis,
  that no record with this fingerprint has another key, holds of every blob store that
  \<^verbatim>\<open>add\<close> has filled.)
\<close>

theorem same_bytes_in_two_albums_both_succeed:
  assumes "db s = Some d" and "a1 \<noteq> a2"
    and "f_type f1 \<in> set validFormats" and "f_readable f1"
    and "f_image f1 = Some wh1" and "f_thumbable f1"
    and "f_type f2 \<in> set validFormats" and "f_readable f2"
    and "f_image f2 = Some wh2" and "f_thumbable f2"
    and "f_bytes f2 = f_bytes f1"
    and "length (filter (\<lambda>p. p_album_id p = a1) (photos d)) < 500"
    and "length (filter (\<lambda>p. p_album_id p = a2) (photos d)) < 500"
    and "\<forall>p \<in> set (photos d). p_file_hash p = digest (f_bytes f1) \<longrightarrow>
           p_album_id p \<noteq> a1 \<and> p_album_id p \<noteq> a2"
    and "True \<notin> set (faults (idb s))"
    and "\<forall>r \<in> set (records (idb s)). b_fileHash r = digest (f_bytes f1) \<longrightarrow> b_id r = 0"
  shows "\<exists>p1 s1 p2 s2 d2 r1 r2 b.
      add digest now_a ts_a a1 f1 s = (Inr p1, s1) \<and>
      add digest now_b ts_b a2 f2 s1 = (Inr p2, s2) \<and>
      db s2 = Some d2 \<and> photos d2 = photos d @ [r1, r2] \<and>
      p_album_id r1 = a1 \<and> p_file_hash r1 = digest (f_bytes f1) \<and> p_filename r1 = f_name f1 \<and>
      p_album_id r2 = a2 \<and> p_file_hash r2 = digest (f_bytes f1) \<and> p_filename r2 = f_name f2 \<and>
      p1 = r1\<lparr>p_id := 0\<rparr> \<and> p2 = r2\<lparr>p_id := 0\<rparr> \<and>
      filter (\<lambda>b. b_fileHash b = digest (f_bytes f1)) (records (idb s2)) = [b] \<and>
      b_albumId b = a2 \<and> b_photo b = f2 \<and> generateThumbnail f2 = Inr (b_thumbnail b)"
proof -
  let ?h = "digest (f_bytes f1)"
  let ?r1 = "new_row digest now_a a1 f1 d"
  let ?d1 = "with_row ?r1 d"
  have new1: "\<not> (\<exists>p \<in> set (photos d). p_album_id p = a1 \<and> p_file_hash p = digest (f_bytes f1))"
    using assms(14) by auto
  from add_ok [where digest = digest and now = now_a and ts = ts_a,
      OF assms(3) assms(1) assms(12) assms(4) new1 assms(5) assms(6) assms(15) assms(16)]
  obtain th1 st1 where run1: "add digest now_a ts_a a1 f1 s =
        (Inr (?r1\<lparr>p_id := 0\<rparr>), s\<lparr>db := Some ?d1, idb := st1\<rparr>)"
    and recs1: "records st1 = filter (\<lambda>r. b_id r \<noteq> 0) (records (idb s)) @
        [\<lparr>b_id = 0, b_albumId = a1, b_photo = f1, b_thumbnail = th1,
          b_fileHash = ?h, b_timestamp = ts_a\<rparr>]"
    and nf1: "True \<notin> set (faults st1)"
    by blast
  let ?s1 = "s\<lparr>db := Some ?d1, idb := st1\<rparr>"
  let ?r2 = "new_row digest now_b a2 f2 ?d1"
  let ?d2 = "with_row ?r2 ?d1"
  have r1: "p_album_id ?r1 = a1" "p_file_hash ?r1 = ?h" "p_filename ?r1 = f_name f1"
    by (simp_all add: new_row_def)
  have r2: "p_album_id ?r2 = a2" "p_file_hash ?r2 = ?h" "p_filename ?r2 = f_name f2"
    using assms(11) by (simp_all add: new_row_def)
  have ph1: "photos ?d1 = photos d @ [?r1]" by (simp add: with_row_def)
  have d1: "db ?s1 = Some ?d1" by simp
  have room2: "length (filter (\<lambda>p. p_album_id p = a2) (photos ?d1)) < 500"
    using assms(13) assms(2) r1(1) by (simp add: ph1)
  have new2: "\<not> (\<exists>p \<in> set (photos ?d1). p_album_id p = a2 \<and> p_file_hash p = digest (f_bytes f2))"
    using assms(14) assms(2) assms(11) r1(1) by (auto simp: ph1)
  have nf1': "True \<notin> set (faults (idb ?s1))" using nf1 by simp
  have keys1: "\<forall>r \<in> set (records (idb ?s1)). b_fileHash r = digest (f_bytes f2) \<longrightarrow> b_id r = 0"
    using assms(16) assms(11) by (auto simp: recs1)
  from add_ok [where digest = digest and now = now_b and ts = ts_b,
      OF assms(7) d1 room2 assms(8) new2 assms(9) assms(10) nf1' keys1]
  obtain th2 st2 where run2: "add digest now_b ts_b a2 f2 ?s1 =
        (Inr (?r2\<lparr>p_id := 0\<rparr>), ?s1\<lparr>db := Some ?d2, idb := st2\<rparr>)"
    and th2: "generateThumbnail f2 = Inr th2"
    and recs2: "records st2 = filter (\<lambda>r. b_id r \<noteq> 0) (records (idb ?s1)) @
        [\<lparr>b_id = 0, b_albumId = a2, b_photo = f2, b_thumbnail = th2,
          b_fileHash = digest (f_bytes f2), b_timestamp = ts_b\<rparr>]"
    by blast
  let ?b = "\<lparr>b_id = 0, b_albumId = a2, b_photo = f2, b_thumbnail = th2,
             b_fileHash = ?h, b_timestamp = ts_b\<rparr>"
  have "filter (\<lambda>b. b_fileHash b = ?h) (filter (\<lambda>r. b_id r \<noteq> 0) (records (idb ?s1))) = []"
    using keys1 assms(11) by (auto simp: filter_empty_conv)
  then have one: "filter (\<lambda>b. b_fileHash b = ?h) (records st2) = [?b]"
    using recs2 assms(11) by simp
  let ?s2 = "?s1\<lparr>db := Some ?d2, idb := st2\<rparr>"
  have ph2: "photos ?d2 = photos d @ [?r1, ?r2]" by (simp add: with_row_def)
  have fin: "add digest now_a ts_a a1 f1 s = (Inr (?r1\<lparr>p_id := 0\<rparr>), ?s1) \<and>
      add digest now_b ts_b a2 f2 ?s1 = (Inr (?r2\<lparr>p_id := 0\<rparr>), ?s2) \<and>
      db ?s2 = Some ?d2 \<and> photos ?d2 = photos d @ [?r1, ?r2] \<and>
      p_album_id ?r1 = a1 \<and> p_file_hash ?r1 = ?h \<and> p_filename ?r1 = f_name f1 \<and>
      p_album_id ?r2 = a2 \<and> p_file_hash ?r2 = ?h \<and> p_filename ?r2 = f_name f2 \<and>
      ?r1\<lparr>p_id := 0\<rparr> = ?r1\<lparr>p_id := 0\<rparr> \<and> ?r2\<lparr>p_id := 0\<rparr> = ?r2\<lparr>p_id := 0\<rparr> \<and>
      filter (\<lambda>b. b_fileHash b = ?h) (records (idb ?s2)) = [?b] \<and>
      b_albumId ?b = a2 \<and> b_photo ?b = f2 \<and> generateThumbnail f2 = Inr (b_thumbnail ?b)"
    using run1 run2 ph2 r1 r2 one th2 by simp
  show ?thesis
    by (rule exI [of _ "?r1\<lparr>p_id := 0\<rparr>"], rule exI [of _ ?s1],
        rule exI [of _ "?r2\<lparr>p_id := 0\<rparr>"], rule exI [of _ ?s2], rule exI [of _ ?d2],
        rule exI [of _ ?r1], rule exI [of _ ?r2], rule exI [of _ ?b]) (rule fin)
qed

theorem same_bytes_in_two_albums_both_succeed_witness:
  "db (albums_only three_albums) = Some (the (db (albums_only three_albums))) \<and>
   (1 :: nat) \<noteq> 2 \<and>
   f_type beach_jpg \<in> set validFormats \<and> f_readable beach_jpg \<and>
   f_image beach_jpg = Some (4000, 3000) \<and> f_thumbable beach_jpg \<and>
   f_type copy_jpg \<in> set validFormats \<and> f_readable copy_jpg \<and>
   f_image copy_jpg = Some (4000, 3000) \<and> f_thumbable copy_jpg \<and>
   f_bytes copy_jpg = f_bytes beach_jpg \<and>
   photos (the (db (albums_only three_albums))) = [] \<and>
   records (idb (albums_only three_albums)) = [] \<and>
   faults (idb (albums_only three_albums)) = [] \<and>
   (\<exists>p1 s1 p2 s2 d2 r1 r2 b.
      add hex_of_bytes ''2025-11-20T09:00:00.000Z'' 1763629200000 1 beach_jpg
        (albums_only three_albums) = (Inr p1, s1) \<and>
      add hex_of_bytes ''2025-11-20T09:01:00.000Z'' 1763629260000 2 copy_jpg s1 = (Inr p2, s2) \<and>
      db s2 = Some d2 \<and> photos d2 = [r1, r2] \<and>
      p_album_id r1 = 1 \<and> p_file_hash r1 = ''ffd8ff'' \<and> p_filename r1 = ''beach.jpg'' \<and>
      p_album_id r2 = 2 \<and> p_file_hash r2 = ''ffd8ff'' \<and> p_filename r2 = ''copy.jpg'' \<and>
      p1 = r1\<lparr>p_id := 0\<rparr> \<and> p2 = r2\<lparr>p_id := 0\<rparr> \<and>
      filter (\<lambda>b. b_fileHash b = ''ffd8ff'') (records (idb s2)) = [b] \<and>
      b_albumId b = 2 \<and> b_photo b = copy_jpg \<and>
      generateThumbnail copy_jpg = Inr (b_thumbnail b))"
proof -
  have h1: "db (albums_only three_albums) = Some (the (db (albums_only three_albums)))"
    by (simp add: albums_only_def)
  have h2: "(1 :: nat) \<noteq> 2" by simp
  have f1: "f_type beach_jpg \<in> set validFormats" "f_readable beach_jpg"
    "f_image beach_jpg = Some (4000, 3000)" "f_thumbable beach_jpg"
    by (simp_all add: beach_jpg_def validFormats_def)
  have f2: "f_type copy_jpg \<in> set validFormats" "f_readable copy_jpg"
    "f_image copy_jpg = Some (4000, 3000)" "f_thumbable copy_jpg"
    "f_bytes copy_jpg = f_bytes beach_jpg"
    by (simp_all add: copy_jpg_def beach_jpg_def validFormats_def)
  have e: "photos (the (db (albums_only three_albums))) = []"
    "records (idb (albums_only three_albums)) = []"
    "faults (idb (albums_only three_albums)) = []"
    by (simp_all add: albums_only_def empty_idb_def)
  have room: "length (filter (\<lambda>p. p_album_id p = 1) (photos (the (db (albums_only three_albums))))) < 500"
    "length (filter (\<lambda>p. p_album_id p = 2) (photos (the (db (albums_only three_albums))))) < 500"
    by (simp_all add: e)
  have new: "\<forall>p \<in> set (photos (the (db (albums_only three_albums)))).
      p_file_hash p = hex_of_bytes (f_bytes beach_jpg) \<longrightarrow> p_album_id p \<noteq> 1 \<and> p_album_id p \<noteq> 2"
    by (simp add: e)
  have nf: "True \<notin> set (faults (idb (albums_only three_albums)))" by (simp add: e)
  have keys: "\<forall>r \<in> set (records (idb (albums_only three_albums))).
      b_fileHash r = hex_of_bytes (f_bytes beach_jpg) \<longrightarrow> b_id r = 0"
    by (simp add: e)
  have hx: "hex_of_bytes (f_bytes beach_jpg) = ''ffd8ff''"
    by (simp add: hex_of_bytes_def hex_digit_def beach_jpg_def)
  have nm: "f_name beach_jpg = ''beach.jpg''" "f_name copy_jpg = ''copy.jpg''"
    by (simp_all add: copy_jpg_def beach_jpg_def)
  show ?thesis
    using same_bytes_in_two_albums_both_succeed [where digest = hex_of_bytes
        and now_a = "''2025-11-20T09:00:00.000Z''" and ts_a = 1763629200000
        and now_b = "''2025-11-20T09:01:00.000Z''" and ts_b = 1763629260000,
        OF h1 h2 f1(1) f1(2) f1(3) f1(4) f2(1) f2(2) f2(3) f2(4) f2(5) room(1) room(2) new nf keys]
      h1 f1 f2 e
    by (simp add: hx nm)
qed

text \<open>
  Claim C2, as amended. After a successful upload of \<open>f1\<close> to an album, a second file with
  a supported type and the same bytes, uploaded to the same album while the album still
  holds fewer than 500 photos, is rejected with the duplicate error, whose message names
  the second file; the stores do not change, and they hold exactly one row and exactly one
  blob pair for the album and the fingerprint, those of the first upload. (The row has its
  rowid and the blob pair has key 0; the Photo object the first upload returned is the
  row with id 0.)
\<close>

theorem second_upload_to_same_album_rejected:
  assumes first: "add digest now ts albumId f1 s = (Inr p1, s1)"
    and fmt: "f_type f2 \<in> set validFormats"
    and same: "f_bytes f2 = f_bytes f1"
    and rd: "f_readable f2"
    and d1: "db s1 = Some d1"
    and room: "length (filter (\<lambda>p. p_album_id p = albumId) (photos d1)) < 500"
  shows "add digest now' ts' albumId f2 s1 =
           (Inl (Error (''Duplicate photo detected: '' @ f_name f2 @
                        '' already exists in this album'')), s1) \<and>
         (\<exists>row. filter (\<lambda>p. p_album_id p = albumId \<and> p_file_hash p = digest (f_bytes f1))
                   (photos d1) = [row] \<and>
              p_filename row = f_name f1 \<and> 0 < p_id row \<and> p1 = row\<lparr>p_id := 0\<rparr>) \<and>
         (\<exists>b. filter (\<lambda>b. b_albumId b = albumId \<and> b_fileHash b = digest (f_bytes f1))
                 (records (idb s1)) = [b] \<and>
              b_id b = 0 \<and> b_photo b = f1)"
proof -
  from add_success [OF first] obtain d th st' where d: "db s = Some d"
    and new: "\<not> (\<exists>q \<in> set (photos d). p_album_id q = albumId \<and> p_file_hash q = digest (f_bytes f1))"
    and p1: "p1 = (new_row digest now albumId f1 d)\<lparr>p_id := 0\<rparr>"
    and sp: "storePhoto ts 0 albumId f1 th (digest (f_bytes f1)) (idb s) = (Inr (), st')"
    and s1: "s1 = s\<lparr>db := Some (with_row (new_row digest now albumId f1 d) d), idb := st'\<rparr>"
    by blast
  let ?row = "new_row digest now albumId f1 d"
  have d1': "d1 = with_row ?row d" using s1 d1 by simp
  have ra: "p_album_id ?row = albumId" "p_file_hash ?row = digest (f_bytes f1)"
    "p_filename ?row = f_name f1"
    by (simp_all add: new_row_def)
  have rows: "filter (\<lambda>p. p_album_id p = albumId \<and> p_file_hash p = digest (f_bytes f1))
                (photos d1) = [?row]"
    using new ra by (auto simp: d1' with_row_def filter_empty_conv)
  have dup: "\<exists>p \<in> set (photos d1). p_album_id p = albumId \<and>
               p_file_hash p = digest (f_bytes f2)"
    using ra same by (auto simp: d1' with_row_def)
  have second: "add digest now' ts' albumId f2 s1 =
           (Inl (Error (''Duplicate photo detected: '' @ f_name f2 @
                        '' already exists in this album'')), s1)"
    using add_run_duplicate [where digest = digest and now = now' and ts = ts', OF fmt d1 room rd dup]
    by (simp add: add_def)
  have one: "filter (\<lambda>b. b_fileHash b = digest (f_bytes f1)) (records st') =
           [\<lparr>b_id = 0, b_albumId = albumId, b_photo = f1, b_thumbnail = th,
             b_fileHash = digest (f_bytes f1), b_timestamp = ts\<rparr>]"
    using storePhoto_one_record [OF sp] .
  have "filter (\<lambda>b. b_albumId b = albumId \<and> b_fileHash b = digest (f_bytes f1)) (records st') =
          filter (\<lambda>b. b_albumId b = albumId) (filter (\<lambda>b. b_fileHash b = digest (f_bytes f1)) (records st'))"
    by (simp add: conj_commute)
  then have blobs: "filter (\<lambda>b. b_albumId b = albumId \<and> b_fileHash b = digest (f_bytes f1)) (records (idb s1)) =
           [\<lparr>b_id = 0, b_albumId = albumId, b_photo = f1, b_thumbnail = th,
             b_fileHash = digest (f_bytes f1), b_timestamp = ts\<rparr>]"
    using one s1 by simp
  show ?thesis using second rows blobs ra(3) p1 new_row_id [of digest now albumId f1 d] by simp
qed

theorem second_upload_to_same_album_rejected_witness:
  "f_type copy_jpg \<in> set validFormats \<and> f_bytes copy_jpg = f_bytes beach_jpg \<and>
   f_readable copy_jpg \<and> db after_beach = Some (the (db after_beach)) \<and>
   length (filter (\<lambda>p. p_album_id p = 1) (photos (the (db after_beach)))) < 500 \<and>
   add hex_of_bytes ''2025-11-20T09:01:00.000Z'' 1763629260000 1 copy_jpg after_beach =
     (Inl (Error ''Duplicate photo detected: copy.jpg already exists in this album''),
      after_beach) \<and>
   filter (\<lambda>p. p_album_id p = 1 \<and> p_file_hash p = ''ffd8ff'') (photos (the (db after_beach)))
     = [beach_row] \<and>
   filter (\<lambda>b. b_albumId b = 1 \<and> b_fileHash b = ''ffd8ff'') (records (idb after_beach))
     = [beach_blob\<lparr>b_id := 0\<rparr>]"
proof -
  have h2: "f_type copy_jpg \<in> set validFormats" by (simp add: copy_jpg_def beach_jpg_def validFormats_def)
  have h3: "f_bytes copy_jpg = f_bytes beach_jpg" by (simp add: copy_jpg_def)
  have h4: "f_readable copy_jpg" by (simp add: copy_jpg_def beach_jpg_def)
  have h5: "db after_beach = Some (the (db after_beach))" by (simp add: after_beach_def)
  have h6: "length (filter (\<lambda>p. p_album_id p = 1) (photos (the (db after_beach)))) < 500"
    by (simp add: after_beach_def beach_row_def)
  have hx: "hex_of_bytes (f_bytes beach_jpg) = ''ffd8ff''"
    by (simp add: hex_of_bytes_def hex_digit_def beach_jpg_def)
  have nm: "f_name copy_jpg = ''copy.jpg''" by (simp add: copy_jpg_def)
  show ?thesis
    using second_upload_to_same_album_rejected [OF first_upload_example h2 h3 h4 h5 h6,
        of "''2025-11-20T09:01:00.000Z''" 1763629260000] h2 h3 h4 h5 h6
    by (simp add: hx nm) (simp add: after_beach_def beach_blob_def beach_row_def)
qed

lemma count_filler:
  "length (filter (\<lambda>p. p_album_id p = 1) (map filler_photo [0..<n])) = n"
  by (induction n) (simp_all add: filler_photo_def)

lemma no_filler_hash:
  "\<not> (\<exists>q \<in> set (map filler_photo [0..<n]). p_album_id q = 1 \<and> p_file_hash q = ''ffd8ff'')"
  by (auto simp: filler_photo_def)

text \<open>
  Claim C2 as stated fails in two ways. When the first upload brings the album to 500
  photos, the second one is stopped by the capacity check, which comes before the
  fingerprint, and the error is the capacity error. And the duplicate message names the
  file being uploaded (\<^verbatim>\<open>copy.jpg\<close>), not the file already stored (\<^verbatim>\<open>beach.jpg\<close>).
\<close>

theorem second_upload_counterexample:
  "length (filter (\<lambda>p. p_album_id p = 1) (photos (the (db nearly_full)))) = 499 \<and>
   fst (add hex_of_bytes ''2025-11-20T09:00:00.000Z'' 1763629200000 1 beach_jpg nearly_full) =
     Inr (beach_row\<lparr>p_id := 0\<rparr>) \<and>
   fst (add hex_of_bytes ''2025-11-20T09:01:00.000Z'' 1763629260000 1 copy_jpg
          (snd (add hex_of_bytes ''2025-11-20T09:00:00.000Z'' 1763629200000 1 beach_jpg nearly_full))) =
     Inl (Error ''Album has reached maximum photo limit (500)'') \<and>
   fst (add hex_of_bytes ''2025-11-20T09:01:00.000Z'' 1763629260000 1 copy_jpg after_beach) =
     Inl (Error ''Duplicate photo detected: copy.jpg already exists in this album'') \<and>
   map p_filename (photos (the (db after_beach))) = [''beach.jpg'']"
proof -
  let ?d = "the (db nearly_full)"
  let ?row = "new_row hex_of_bytes ''2025-11-20T09:00:00.000Z'' 1 beach_jpg ?d"
  have d: "db nearly_full = Some ?d" by (simp add: nearly_full_def)
  have ph: "photos ?d = map filler_photo [0..<499]" by (simp add: nearly_full_def)
  have hx: "hex_of_bytes (f_bytes beach_jpg) = ''ffd8ff''"
    by (simp add: hex_of_bytes_def hex_digit_def beach_jpg_def)
  have fmt: "f_type beach_jpg \<in> set validFormats" "f_type copy_jpg \<in> set validFormats"
    by (simp_all add: copy_jpg_def beach_jpg_def validFormats_def)
  have cnt: "length (filter (\<lambda>p. p_album_id p = 1) (photos ?d)) = 499"
    unfolding ph by (rule count_filler)
  then have room: "length (filter (\<lambda>p. p_album_id p = 1) (photos ?d)) < 500"
    by simp
  have rd: "f_readable beach_jpg" and tb: "f_thumbable beach_jpg"
    and img: "f_image beach_jpg = Some (4000, 3000)"
    by (simp_all add: beach_jpg_def)
  have new: "\<not> (\<exists>p \<in> set (photos ?d). p_album_id p = 1 \<and> p_file_hash p = hex_of_bytes (f_bytes beach_jpg))"
    unfolding ph hx by (rule no_filler_hash)
  have nf: "True \<notin> set (faults (idb nearly_full))" by (simp add: nearly_full_def)
  have keys: "\<forall>r \<in> set (records (idb nearly_full)).
      b_fileHash r = hex_of_bytes (f_bytes beach_jpg) \<longrightarrow> b_id r = 0"
    by (simp add: nearly_full_def filler_blob_def)
  from add_ok [where digest = hex_of_bytes and now = "''2025-11-20T09:00:00.000Z''"
        and ts = 1763629200000, OF fmt(1) d room rd new img tb nf keys]
  obtain st' where run: "add hex_of_bytes ''2025-11-20T09:00:00.000Z'' 1763629200000 1 beach_jpg nearly_full =
      (Inr (?row\<lparr>p_id := 0\<rparr>), nearly_full\<lparr>db := Some (with_row ?row ?d), idb := st'\<rparr>)"
    by blast
  have ret: "?row\<lparr>p_id := 0\<rparr> = beach_row\<lparr>p_id := 0\<rparr>"
    by (simp add: new_row_def beach_row_def beach_jpg_def format_of_def hex_of_bytes_def
        hex_digit_def)
  let ?s1 = "nearly_full\<lparr>db := Some (with_row ?row ?d), idb := st'\<rparr>"
  have d1: "db ?s1 = Some (with_row ?row ?d)" by simp
  have "p_album_id ?row = 1" by (simp add: new_row_def)
  then have "length (filter (\<lambda>p. p_album_id p = 1) (photos (with_row ?row ?d))) =
      Suc (length (filter (\<lambda>p. p_album_id p = 1) (photos ?d)))"
    by (simp add: with_row_def)
  then have full: "500 \<le> length (filter (\<lambda>p. p_album_id p = 1) (photos (with_row ?row ?d)))"
    using cnt by simp
  have second: "add hex_of_bytes ''2025-11-20T09:01:00.000Z'' 1763629260000 1 copy_jpg ?s1 =
      (Inl (Error ''Album has reached maximum photo limit (500)''), ?s1)"
    using add_run_capacity [where digest = hex_of_bytes and now = "''2025-11-20T09:01:00.000Z''"
        and ts = 1763629260000, OF fmt(2) d1 full]
    by (simp add: add_def)
  have third: "fst (add hex_of_bytes ''2025-11-20T09:01:00.000Z'' 1763629260000 1 copy_jpg after_beach) =
     Inl (Error ''Duplicate photo detected: copy.jpg already exists in this album'')"
    by (simp add: add_defs example_defs)
  have names: "map p_filename (photos (the (db after_beach))) = [''beach.jpg'']"
    by (simp add: after_beach_def beach_row_def)
  show ?thesis using cnt run ret second third names by simp
qed

subsection \<open>Deleting an album\<close>














subsection \<open>The upload queue\<close>

lemma queue_inv_init: "queue_inv n items (process_init n items)"
  by (simp add: queue_inv_def process_init_def reported_def)

lemma settle_fields:
  "maxConcurrent (settle p m out q) = maxConcurrent q"
  "total (settle p m out q) = total q"
  "queue (settle p m out q) = queue q"
  "created (settle p m out q) = created q"
  "completed (settle p m out q) = Suc (completed q)"
  "active (settle p m out q) = filter (\<lambda>x. fst x \<noteq> p) (active q)"
  "at (settle p m out q) = Woken"
  "\<exists>rep. progress (settle p m out q) = progress q @ [(Suc (completed q), total q, rep)] \<and>
         report_metadata rep = m"
  by (cases out; simp add: settle_def split: prod.splits)+

lemma remove_promise:
  assumes "distinct (map fst xs)" and "(p, m) \<in> set xs"
  shows "mset (map snd xs) = add_mset m (mset (map snd (filter (\<lambda>x. fst x \<noteq> p) xs)))"
  using assms
proof (induction xs)
  case Nil
  then show ?case by simp
next
  case (Cons x xs)
  show ?case
  proof (cases "x = (p, m)")
    case True
    then have "\<forall>y \<in> set xs. fst y \<noteq> p" using Cons.prems(1) by auto
    then have "filter (\<lambda>x. fst x \<noteq> p) xs = xs" by (simp add: filter_id_conv)
    with True show ?thesis by simp
  next
    case False
    then have in_xs: "(p, m) \<in> set xs" using Cons.prems(2) by simp
    then have "fst x \<noteq> p" using Cons.prems(1) by (auto simp: image_iff)
    with Cons.IH in_xs Cons.prems(1) show ?thesis by simp
  qed
qed

lemma queue_inv_step:
  assumes inv: "queue_inv n items q" and st: "step q q'"
  shows "queue_inv n items q'"
  using st inv
proof (cases rule: step.cases)
  case enter
  with inv show ?thesis by (simp add: queue_inv_def reported_def)
next
  case return
  with inv show ?thesis by (simp add: queue_inv_def reported_def)
next
  case start
  then obtain item rest where qu: "queue q = item # rest" by (cases "queue q") auto
  with start inv show ?thesis
    by (auto simp: queue_inv_def reported_def start_next_def less_Suc_eq)
next
  case wait
  with inv show ?thesis by (auto simp: queue_inv_def reported_def)
next
  case skip
  with inv show ?thesis by (simp add: queue_inv_def reported_def)
next
  case (settles p m out)
  from settle_fields(8) [of p m out q] obtain rep where
    rep: "progress q' = progress q @ [(Suc (completed q), total q, rep)]" "report_metadata rep = m"
    using settles(1) by auto
  have dist: "distinct (map fst (active q))" and tot: "total q = length items"
    using inv by (simp_all add: queue_inv_def)
  have ms: "mset (map snd (active q)) =
      add_mset m (mset (map snd (filter (\<lambda>x. fst x \<noteq> p) (active q))))"
    using remove_promise [OF dist settles(3)] .
  have len: "length (filter (\<lambda>x. fst x \<noteq> p) (active q)) < length (active q)"
    using settles(3) by (intro length_filter_less [of "(p, m)"]) auto
  have rp: "reported q' = reported q @ [m]" using rep by (simp add: reported_def)
  have "mset (reported q') + mset (map snd (active q')) + mset (queue q') = mset items"
    using inv ms rp settles(1) by (simp add: queue_inv_def settle_fields)
  moreover have "map (\<lambda>(c, t, r). (c, t)) (progress q') =
      map (\<lambda>i. (Suc i, length items)) [0..<completed q']"
    using inv rep tot settles(1) by (simp add: queue_inv_def settle_fields)
  moreover have "distinct (map fst (active q'))"
    using dist settles(1) by (simp add: settle_fields distinct_map_filter)
  ultimately show ?thesis
    using inv len settles(1) by (auto simp: queue_inv_def settle_fields)
next
  case resume
  with inv show ?thesis by (simp add: queue_inv_def reported_def)
qed

lemma reachable_inv:
  assumes "reachable n items q"
  shows "queue_inv n items q"
  using assms unfolding reachable_def
  by (induction rule: rtranclp_induct) (auto intro: queue_inv_init queue_inv_step)

lemma step_decreases:
  assumes "step q q'" and "0 < maxConcurrent q"
  shows "steps_left q' < steps_left q"
  using assms
proof (cases rule: step.cases)
  case (settles p m out)
  have "length (filter (\<lambda>x. fst x \<noteq> p) (active q)) < length (active q)"
    using settles(3) by (intro length_filter_less [of "(p, m)"]) auto
  with settles show ?thesis
    by (cases "at q") (auto simp: steps_left_def settle_fields)
next
  case start
  then obtain item rest where "queue q = item # rest" by (cases "queue q") auto
  with start show ?thesis by (simp add: steps_left_def start_next_def)
qed (use assms(2) in \<open>auto simp: steps_left_def\<close>)

lemma step_exists:
  assumes "queue_inv n items q" and "at q \<noteq> Done"
  shows "\<exists>q'. step q q'"
proof (cases "at q")
  case Test
  show ?thesis
  proof (cases "queue q = [] \<and> active q = []")
    case True
    with Test show ?thesis by (auto intro: step.return)
  next
    case False
    with Test show ?thesis by (auto intro: step.enter)
  qed
next
  case Fill
  show ?thesis
  proof (cases "length (active q) < maxConcurrent q \<and> queue q \<noteq> []")
    case True
    with Fill show ?thesis by (auto intro: step.start)
  next
    case nc: False
    show ?thesis
    proof (cases "active q = []")
      case True
      from step.skip [OF Fill nc True] show ?thesis by blast
    next
      case False
      from step.wait [OF Fill nc False] show ?thesis by blast
    qed
  qed
next
  case Await
  with assms(1) obtain p m where "(p, m) \<in> set (active q)"
    by (cases "active q") (auto simp: queue_inv_def)
  with Await show ?thesis by (auto intro: step.settles [where out = RejectedBare])
next
  case Woken
  then show ?thesis by (auto intro: step.resume)
next
  case Done
  with assms(2) show ?thesis by simp
qed

text \<open>
  Claim C5. In every state of a run of \<^verbatim>\<open>process\<close> over \<open>items\<close>, with at least one slot
  and whatever the uploads' outcomes are, the progress callback has been called once per
  settled upload with the counts 1, 2, ... and the total; every file is queued, in flight
  or reported, never lost; a run that has returned has reported every file, and its last
  call carried current = total = the number of files. A run cannot get stuck before it
  returns, and every step brings it closer to returning.
\<close>

theorem progress_after_every_item:
  assumes "reachable n items q" and "0 < n"
  shows "map (\<lambda>(c, t, r). (c, t)) (progress q) =
           map (\<lambda>i. (Suc i, length items)) [0..<completed q] \<and>
         mset (reported q) + mset (map snd (active q)) + mset (queue q) = mset items \<and>
         (at q = Done \<longrightarrow>
            completed q = length items \<and> mset (reported q) = mset items \<and>
            (items \<noteq> [] \<longrightarrow> (\<exists>r. last (progress q) = (length items, length items, r)))) \<and>
         (at q \<noteq> Done \<longrightarrow> (\<exists>q'. step q q')) \<and>
         (\<forall>q'. step q q' \<longrightarrow> steps_left q' < steps_left q)"
proof -
  have inv: "queue_inv n items q" using assms(1) by (rule reachable_inv)
  then have pr: "map (\<lambda>(c, t, r). (c, t)) (progress q) =
           map (\<lambda>i. (Suc i, length items)) [0..<completed q]"
    and ms: "mset (reported q) + mset (map snd (active q)) + mset (queue q) = mset items"
    and mx: "maxConcurrent q = n"
    by (simp_all add: queue_inv_def)
  have len: "length (progress q) = completed q"
    using arg_cong [OF pr, of length] by simp
  have fin: "at q = Done \<longrightarrow>
            completed q = length items \<and> mset (reported q) = mset items \<and>
            (items \<noteq> [] \<longrightarrow> (\<exists>r. last (progress q) = (length items, length items, r)))"
  proof
    assume "at q = Done"
    with inv have e: "queue q = []" "active q = []" by (simp_all add: queue_inv_def)
    with ms have all: "mset (reported q) = mset items" by simp
    then have "length (reported q) = length items" by (metis size_mset)
    then have c: "completed q = length items" using len by (simp add: reported_def)
    have "items \<noteq> [] \<longrightarrow> (\<exists>r. last (progress q) = (length items, length items, r))"
    proof
      assume ne: "items \<noteq> []"
      then have pne: "progress q \<noteq> []" using c len by auto
      obtain c' t' r' where l: "last (progress q) = (c', t', r')" by (cases "last (progress q)")
      have "last (map (\<lambda>(c, t, r). (c, t)) (progress q)) = (c', t')"
        using pne l by (simp add: last_map)
      moreover have "last (map (\<lambda>i. (Suc i, length items)) [0..<completed q]) =
          (length items, length items)"
        using c ne by (simp add: last_map)
      ultimately have "c' = length items" "t' = length items" using pr by simp_all
      with l show "\<exists>r. last (progress q) = (length items, length items, r)" by simp
    qed
    with c all show "completed q = length items \<and> mset (reported q) = mset items \<and>
            (items \<noteq> [] \<longrightarrow> (\<exists>r. last (progress q) = (length items, length items, r)))"
      by simp
  qed
  have live: "at q \<noteq> Done \<longrightarrow> (\<exists>q'. step q q')"
    using step_exists [OF inv] by blast
  have dec: "\<forall>q'. step q q' \<longrightarrow> steps_left q' < steps_left q"
    using step_decreases mx assms(2) by blast
  show ?thesis using pr ms fin live dec by blast
qed

lemmas queue_example_defs = two_started_def two_settled_def two_done_def four_waiting_def
  four_one_settled_def process_init_def start_next_def settle_def m_beach_def m_copy_def
  m_dunes_def m_gif_def duplicate_error_def

lemma two_done_reachable: "reachable 3 [m_beach, m_copy] two_done"
proof -
  let ?q0 = "process_init 3 [m_beach, m_copy]"
  let ?q1 = "?q0\<lparr>at := Fill\<rparr>"
  let ?q2 = "start_next ?q1"
  let ?q3 = "start_next ?q2"
  let ?q4 = "?q3\<lparr>at := Await\<rparr>"
  let ?q5 = "settle 0 m_beach (Resolved beach_row) ?q4"
  let ?q6 = "settle 1 m_copy (Rejected duplicate_error) ?q5"
  let ?q7 = "?q6\<lparr>at := Test\<rparr>"
  let ?q8 = "?q7\<lparr>at := Done\<rparr>"
  have s1: "step ?q0 ?q1" by (rule step.enter) (simp_all add: process_init_def)
  have s2: "step ?q1 ?q2" by (rule step.start) (simp_all add: process_init_def)
  have s3: "step ?q2 ?q3" by (rule step.start) (simp_all add: process_init_def start_next_def)
  have s4: "step ?q3 ?q4" by (rule step.wait) (simp_all add: process_init_def start_next_def)
  have s5: "step ?q4 ?q5" by (rule step.settles) (simp_all add: process_init_def start_next_def)
  have s6: "step ?q5 ?q6"
    by (rule step.settles) (simp_all add: process_init_def start_next_def settle_def)
  have s7: "step ?q6 ?q7"
    by (rule step.resume) (simp add: settle_def duplicate_error_def)
  have s8: "step ?q7 ?q8"
    by (rule step.return) (simp_all add: process_init_def start_next_def settle_def duplicate_error_def)
  have "step\<^sup>*\<^sup>* ?q0 ?q8"
    using s1 s2 s3 s4 s5 s6 s7 s8 by (meson rtranclp.rtrancl_into_rtrancl rtranclp.rtrancl_refl)
  moreover have "?q8 = two_done"
    by (simp add: two_done_def two_settled_def two_started_def)
  ultimately show ?thesis by (simp add: reachable_def)
qed

theorem progress_after_every_item_witness:
  "reachable 3 [m_beach, m_copy] two_done \<and> at two_done = Done \<and> completed two_done = 2 \<and>
   progress two_done =
     [(1, 2, Success m_beach beach_row),
      (2, 2, Failure m_copy ''Duplicate photo detected: copy.jpg already exists in this album'')] \<and>
   mset (reported two_done) = mset [m_beach, m_copy]"
  using progress_after_every_item [OF two_done_reachable] two_done_reachable
  by (simp add: queue_example_defs)

lemma resume_only:
  assumes "step q q1" and "at q = Woken" and "at q1 = Test"
  shows "q1 = q\<lparr>at := Test\<rparr>"
  using assms by (cases rule: step.cases) (simp_all add: settle_fields)

lemma enter_only:
  assumes "step q q'" and "at q = Test" and "queue q \<noteq> []"
  shows "q' = q\<lparr>at := Fill\<rparr>"
  using assms by (cases rule: step.cases) simp_all

lemma start_only:
  assumes "step q q'" and "at q = Fill" and "length (active q) < maxConcurrent q"
    and "queue q \<noteq> []"
  shows "q' = start_next q"
  using assms by (cases rule: step.cases) simp_all

text \<open>
  Claim C9. In every state \<^verbatim>\<open>uploadPhotos\<close> can reach, at most three uploads are in
  flight; \<^verbatim>\<open>process\<close> never waits while a slot is free and a file is queued; a settled
  upload frees a slot; and when \<^verbatim>\<open>process\<close> wakes up with files still queued, its next
  moves are fixed: back to the loop test, into the inner loop, start the head of the queue.
\<close>

theorem at_most_three_uploads_in_flight:
  assumes "uploadPhotos_states items q"
  shows "length (active q) \<le> 3 \<and>
         (at q = Await \<longrightarrow> length (active q) = 3 \<or> queue q = []) \<and>
         (at q = Woken \<longrightarrow> length (active q) < 3) \<and>
         (at q = Woken \<and> queue q \<noteq> [] \<longrightarrow>
            step q (q\<lparr>at := Test\<rparr>) \<and> step (q\<lparr>at := Test\<rparr>) (q\<lparr>at := Fill\<rparr>) \<and>
            step (q\<lparr>at := Fill\<rparr>) (start_next (q\<lparr>at := Fill\<rparr>)) \<and>
            (\<forall>q1 q2 q3. step q q1 \<and> at q1 = Test \<and> step q1 q2 \<and> step q2 q3 \<longrightarrow>
               q3 = start_next (q\<lparr>at := Fill\<rparr>)))"
proof -
  have inv: "queue_inv 3 items q"
    using assms by (simp add: uploadPhotos_states_def reachable_inv)
  then have mx: "maxConcurrent q = 3" and le: "length (active q) \<le> 3"
    and aw: "at q = Await \<longrightarrow> length (active q) = 3 \<or> queue q = []"
    and wk: "at q = Woken \<longrightarrow> length (active q) < 3"
    by (simp_all add: queue_inv_def)
  have nxt: "at q = Woken \<and> queue q \<noteq> [] \<longrightarrow>
            step q (q\<lparr>at := Test\<rparr>) \<and> step (q\<lparr>at := Test\<rparr>) (q\<lparr>at := Fill\<rparr>) \<and>
            step (q\<lparr>at := Fill\<rparr>) (start_next (q\<lparr>at := Fill\<rparr>)) \<and>
            (\<forall>q1 q2 q3. step q q1 \<and> at q1 = Test \<and> step q1 q2 \<and> step q2 q3 \<longrightarrow>
               q3 = start_next (q\<lparr>at := Fill\<rparr>))"
  proof
    assume h: "at q = Woken \<and> queue q \<noteq> []"
    then have free: "length (active q) < 3" using wk by simp
    have a: "step q (q\<lparr>at := Test\<rparr>)" using h by (intro step.resume) simp
    have "step (q\<lparr>at := Test\<rparr>) (q\<lparr>at := Test\<rparr>\<lparr>at := Fill\<rparr>)"
      using h by (intro step.enter) simp_all
    then have b: "step (q\<lparr>at := Test\<rparr>) (q\<lparr>at := Fill\<rparr>)" by simp
    have c: "step (q\<lparr>at := Fill\<rparr>) (start_next (q\<lparr>at := Fill\<rparr>))"
      using h free mx by (intro step.start) simp_all
    have d: "\<forall>q1 q2 q3. step q q1 \<and> at q1 = Test \<and> step q1 q2 \<and> step q2 q3 \<longrightarrow>
               q3 = start_next (q\<lparr>at := Fill\<rparr>)"
    proof (intro allI impI)
      fix q1 q2 q3
      assume s: "step q q1 \<and> at q1 = Test \<and> step q1 q2 \<and> step q2 q3"
      then have q1: "q1 = q\<lparr>at := Test\<rparr>" using h resume_only by blast
      then have "q2 = q1\<lparr>at := Fill\<rparr>" using s h enter_only [of q1 q2] by simp
      then have q2: "q2 = q\<lparr>at := Fill\<rparr>" using q1 by simp
      then show "q3 = start_next (q\<lparr>at := Fill\<rparr>)"
        using s h free mx start_only [of q2 q3] by simp
    qed
    from a b c d show "step q (q\<lparr>at := Test\<rparr>) \<and> step (q\<lparr>at := Test\<rparr>) (q\<lparr>at := Fill\<rparr>) \<and>
            step (q\<lparr>at := Fill\<rparr>) (start_next (q\<lparr>at := Fill\<rparr>)) \<and>
            (\<forall>q1 q2 q3. step q q1 \<and> at q1 = Test \<and> step q1 q2 \<and> step q2 q3 \<longrightarrow>
               q3 = start_next (q\<lparr>at := Fill\<rparr>))"
      by blast
  qed
  show ?thesis using le aw wk nxt by blast
qed

lemma four_one_settled_reachable:
  "uploadPhotos_states [m_beach, m_gif, m_dunes, m_copy] four_one_settled"
proof -
  let ?q0 = "process_init 3 [m_beach, m_gif, m_dunes, m_copy]"
  let ?q1 = "?q0\<lparr>at := Fill\<rparr>"
  let ?q2 = "start_next ?q1"
  let ?q3 = "start_next ?q2"
  let ?q4 = "start_next ?q3"
  let ?q5 = "?q4\<lparr>at := Await\<rparr>"
  let ?q6 = "settle 1 m_gif
       (Rejected (Error ''Unsupported file format: image/gif. Supported formats: JPEG, PNG, WebP, HEIC''))
       ?q5"
  have s1: "step ?q0 ?q1" by (rule step.enter) (simp_all add: process_init_def)
  have s2: "step ?q1 ?q2" by (rule step.start) (simp_all add: process_init_def)
  have s3: "step ?q2 ?q3" by (rule step.start) (simp_all add: process_init_def start_next_def)
  have s4: "step ?q3 ?q4" by (rule step.start) (simp_all add: process_init_def start_next_def)
  have s5: "step ?q4 ?q5" by (rule step.wait) (simp_all add: process_init_def start_next_def)
  have s6: "step ?q5 ?q6" by (rule step.settles) (simp_all add: process_init_def start_next_def)
  have "step\<^sup>*\<^sup>* ?q0 ?q6"
    using s1 s2 s3 s4 s5 s6 by (meson rtranclp.rtrancl_into_rtrancl rtranclp.rtrancl_refl)
  moreover have "?q6 = four_one_settled" by (simp add: four_one_settled_def four_waiting_def)
  ultimately show ?thesis by (simp add: uploadPhotos_states_def reachable_def)
qed

theorem at_most_three_uploads_in_flight_witness:
  "uploadPhotos_states [m_beach, m_gif, m_dunes, m_copy] four_one_settled \<and>
   at four_one_settled = Woken \<and> queue four_one_settled = [m_copy] \<and>
   active four_one_settled = [(0, m_beach), (2, m_dunes)] \<and>
   active (start_next (four_one_settled\<lparr>at := Fill\<rparr>)) = [(0, m_beach), (2, m_dunes), (3, m_copy)] \<and>
   step (four_one_settled\<lparr>at := Fill\<rparr>) (start_next (four_one_settled\<lparr>at := Fill\<rparr>))"
  using at_most_three_uploads_in_flight [OF four_one_settled_reachable] four_one_settled_reachable
  by (simp add: queue_example_defs)

end
